theory Spec2Isabelle
  imports Main "HOL-Library.Sublist" "HOL-Library.Multiset"
begin

section \<open>Strings and POSIX paths\<close>

text \<open>
  Python strings are modelled as \<^typ>\<open>string\<close>. The program is modelled on a POSIX
  platform, where \<^verbatim>\<open>os.sep\<close> is the one-character string \<^verbatim>\<open>/\<close>.
\<close>

definition os_sep :: string where
  "os_sep = ''/''"

text \<open>\<^verbatim>\<open>s.startswith(t)\<close> and \<^verbatim>\<open>s.endswith(t)\<close>.\<close>

definition startswith :: "string \<Rightarrow> string \<Rightarrow> bool" where
  "startswith s t = prefix t s"

definition endswith :: "string \<Rightarrow> string \<Rightarrow> bool" where
  "endswith s t = suffix t s"

text \<open>
  \<^verbatim>\<open>s.lstrip(chars)\<close> removes every leading character that occurs in \<^verbatim>\<open>chars\<close>;
  \<^verbatim>\<open>s.rstrip(chars)\<close> does the same at the end.
\<close>

definition lstrip :: "string \<Rightarrow> string \<Rightarrow> string" where
  "lstrip s chars = dropWhile (\<lambda>c. c \<in> set chars) s"

definition rstrip :: "string \<Rightarrow> string \<Rightarrow> string" where
  "rstrip s chars = rev (dropWhile (\<lambda>c. c \<in> set chars) (rev s))"

text \<open>
  \<^verbatim>\<open>convert_to_immich_path\<close> (lines 90 to 96). The global \<^verbatim>\<open>LIBRARY_ROOT\<close> is
  \<^verbatim>\<open>None\<close> until it is set, so its value is passed as a \<^typ>\<open>string option\<close>; the test
  \<^verbatim>\<open>if LIBRARY_ROOT and ...\<close> is false for \<^verbatim>\<open>None\<close> and for the empty string.
\<close>

definition convert_to_immich_path :: "string option \<Rightarrow> string \<Rightarrow> string" where
  "convert_to_immich_path library_root abs_path =
     (case library_root of
        None \<Rightarrow> abs_path
      | Some root \<Rightarrow>
          if root \<noteq> [] \<and> startswith abs_path root
          then lstrip (drop (length root) abs_path) os_sep
          else abs_path)"

text \<open>
  \<^verbatim>\<open>os.path.join(a, b)\<close> of \<^verbatim>\<open>posixpath\<close>, for one component \<^verbatim>\<open>b\<close>: an absolute
  \<^verbatim>\<open>b\<close> replaces the path, otherwise it is appended, with a separator unless the path is
  empty or already ends with one.
\<close>

definition os_path_join :: "string \<Rightarrow> string \<Rightarrow> string" where
  "os_path_join a b =
     (if startswith b os_sep then b
      else if a = [] \<or> endswith a os_sep then a @ b
      else a @ os_sep @ b)"

text \<open>
  \<^verbatim>\<open>os.path.dirname(p)\<close> of \<^verbatim>\<open>posixpath\<close>: the part up to and including the last
  separator, with trailing separators removed unless it consists of separators only.
\<close>

definition os_path_dirname :: "string \<Rightarrow> string" where
  "os_path_dirname p =
     (let head = rev (dropWhile (\<lambda>c. c \<noteq> CHR ''/'') (rev p))
      in if head \<noteq> [] \<and> head \<noteq> replicate (length head) (CHR ''/'')
         then rstrip head os_sep else head)"

section \<open>Data model\<close>

text \<open>
  An asset identifier is an opaque string. An album is the JSON object the server returns
  for it, read only through \<^verbatim>\<open>.get\<close>: each key may be absent. The key \<^verbatim>\<open>id\<close> is the
  field \<open>album_id\<close>; \<^verbatim>\<open>create_new\<close> is the key of the dictionary that
  \<^verbatim>\<open>select_album_interactive\<close> builds for a new album.
\<close>

type_synonym asset_id = string

type_synonym headers = "(string \<times> string) list"

record album =
  albumName :: "string option"
  album_id :: "string option"
  assetCount :: "nat option"
  create_new :: "bool option"

text \<open>
  The process-wide configuration variables (lines 5 to 9). Each is \<^verbatim>\<open>None\<close> until
  \<^verbatim>\<open>interactive_album_manager\<close> assigns it.
\<close>

record globals =
  IMMICH_HOST :: "string option"
  API_KEY :: "string option"
  LIBRARY_ROOT :: "string option"
  HEADERS :: "headers option"

text \<open>
  A directory as \<^verbatim>\<open>os.walk\<close> sees it: the names of its subdirectories in listing order,
  each with its own tree. Files play no part in the walk's use here. A symbolic link to a
  directory is listed but not entered (\<^verbatim>\<open>followlinks\<close> is off), so it is a leaf.
\<close>

datatype dirtree = Dir "(string \<times> dirtree) list"

datatype fsnode = Missing | File | Directory dirtree

text \<open>
  The exceptions that can leave a function of the program. A failure of a request
  (connection error, timeout, HTTP error status raised by \<^verbatim>\<open>raise_for_status\<close>) is a
  \<^verbatim>\<open>requests.RequestException\<close>, carrying its text; it is the only class the call sites
  catch. \<^verbatim>\<open>UnicodeEncodeError\<close> (raised by the HTTP library for a header value that cannot
  be encoded, such as an API key outside Latin-1) is a subclass of \<^verbatim>\<open>ValueError\<close>.
  \<open>OtherException\<close> stands for any class that is neither a \<^verbatim>\<open>RequestException\<close> nor a
  \<^verbatim>\<open>ValueError\<close>.
\<close>

datatype py_exception =
    EOFError
  | TypeError
  | KeyError
  | ValueError
  | UnicodeEncodeError
  | OtherException string
  | RequestException string

fun is_request_exception :: "py_exception \<Rightarrow> bool" where
  "is_request_exception (RequestException m) = True"
| "is_request_exception e = False"

fun is_value_error :: "py_exception \<Rightarrow> bool" where
  "is_value_error ValueError = True"
| "is_value_error UnicodeEncodeError = True"
| "is_value_error e = False"

text \<open>
  An item of a folder response, as far as the program reads it: the value under its key
  \<^verbatim>\<open>id\<close>, or \<open>None\<close> for an item without that key.
\<close>

type_synonym folder_item = "asset_id option"

text \<open>
  The world outside the program. The file system answers \<^verbatim>\<open>os.path.exists\<close>,
  \<^verbatim>\<open>os.path.isdir\<close> and \<^verbatim>\<open>os.walk\<close> through \<open>path_kind\<close>. The server, together with the
  HTTP library, answers each of the four REST calls, given the host and headers the request
  is sent with: what the statements of the \<^verbatim>\<open>try\<close> block up to \<^verbatim>\<open>response.json()\<close> give, the
  decoded body or the exception raised, of whatever class. A decoded album list is a list
  of album objects. The remaining fields are the library functions the prompts use:
  \<^verbatim>\<open>str.strip\<close>, \<^verbatim>\<open>str.lower\<close>, \<^verbatim>\<open>int\<close> (\<open>None\<close> for \<^verbatim>\<open>ValueError\<close>), \<^verbatim>\<open>os.path.expanduser\<close>
  and \<^verbatim>\<open>os.path.abspath\<close>.
\<close>

record env =
  path_kind :: "string \<Rightarrow> fsnode"
  view_folder :: "string option \<Rightarrow> headers option \<Rightarrow> string \<Rightarrow> py_exception + folder_item list"
  list_albums :: "string option \<Rightarrow> headers option \<Rightarrow> py_exception + album list"
  post_album ::
    "string option \<Rightarrow> headers option \<Rightarrow> string \<Rightarrow> asset_id list \<Rightarrow> py_exception + unit"
  put_assets ::
    "string option \<Rightarrow> headers option \<Rightarrow> string option \<Rightarrow> asset_id list
       \<Rightarrow> py_exception + unit"
  str_strip :: "string \<Rightarrow> string"
  str_lower :: "string \<Rightarrow> string"
  py_int :: "string \<Rightarrow> int option"
  expanduser :: "string \<Rightarrow> string"
  abspath :: "string \<Rightarrow> string"

text \<open>
  What a run does that can be observed: the calls of \<^verbatim>\<open>requests.get\<close>, \<^verbatim>\<open>requests.post\<close>
  and \<^verbatim>\<open>requests.put\<close> it makes and the lines it prints, in order. Each constructor of
  \<open>msg\<close> is one \<^verbatim>\<open>print\<close> statement of the source, with the values it interpolates (an
  exception is interpolated as its text). The prompt text of \<^verbatim>\<open>input\<close> is not recorded.
\<close>

datatype http_call =
    GetFolder string
  | GetAlbums
  | PostAlbum string "asset_id list"
  | PutAssets "string option" "asset_id list"

datatype msg =
    HostFormatWarning string
  | Cancelled
  | ApiKeyEmpty
  | PathEmpty
  | PathNotExist string
  | PathNotDir string
  | ErrGetAssets string string
  | FoundAssetsIn nat string
  | ErrGetAlbums string
  | SkipAlbumExists string
  | DryRunWouldCreate string nat
  | OkAlbumCreated string nat
  | ErrCreateAlbum string string
  | ErrNoAssets
  | DryRunWouldAdd nat
  | OkAdded nat
  | ErrAddAssets string
  | AlbumNameEmpty
  | AlbumNameTaken string
  | AlbumsFound nat
  | OptionCreateNew
  | AlbumEntry nat string nat
  | ChoiceOutOfRange nat
  | InvalidNumber
  | QueryingPath string
  | FoundCount nat
  | NoAssetsWarning
  | Banner
  | ConfigHeader
  | NoHostExit
  | NoApiKeyExit
  | NoLibraryRootExit
  | ShowHost string
  | ShowApiKey string
  | ShowLibraryRoot string
  | SectionHeader
  | OperationCancelled
  | WillCreateAlbum string
  | SelectedExisting string
  | NoAssetsInPath string
  | DryRunCreateDone string nat
  | CreateSuccess string nat
  | CreateFailed
  | DryRunAddDone nat string
  | AddSuccess nat string
  | AddFailed

datatype event = Http http_call | Print msg

text \<open>The mutating calls: album creation (POST) and asset appending (PUT).\<close>

fun is_mutating :: "event \<Rightarrow> bool" where
  "is_mutating (Http (PostAlbum n ids)) = True"
| "is_mutating (Http (PutAssets a ids)) = True"
| "is_mutating e = False"


section \<open>File system\<close>

definition os_path_exists :: "env \<Rightarrow> string \<Rightarrow> bool" where
  "os_path_exists env p = (path_kind env p \<noteq> Missing)"

definition os_path_isdir :: "env \<Rightarrow> string \<Rightarrow> bool" where
  "os_path_isdir env p = (case path_kind env p of Directory t \<Rightarrow> True | _ \<Rightarrow> False)"

text \<open>
  \<^verbatim>\<open>os.walk\<close>, top-down: the directory itself with the names of its subdirectories, then
  the walk of each subdirectory in turn. A path that is not a directory yields nothing.
\<close>

fun walk_tree :: "string \<Rightarrow> dirtree \<Rightarrow> (string \<times> string list) list" where
  "walk_tree tp (Dir ents) =
     (tp, map fst ents) # concat (map (\<lambda>e. walk_tree (os_path_join tp (fst e)) (snd e)) ents)"

definition os_walk :: "env \<Rightarrow> string \<Rightarrow> (string \<times> string list) list" where
  "os_walk env root_dir =
     (case path_kind env root_dir of Directory t \<Rightarrow> walk_tree root_dir t | _ \<Rightarrow> [])"

text \<open>\<^verbatim>\<open>get_all_subdirectories\<close> (lines 99 to 105).\<close>

definition get_all_subdirectories :: "env \<Rightarrow> string \<Rightarrow> string list" where
  "get_all_subdirectories env root_dir =
     concat (map (\<lambda>(root, dirs). map (\<lambda>dir_name. os_path_join root dir_name) dirs)
                 (os_walk env root_dir))"

section \<open>Requests\<close>

text \<open>
  Each function returns its outcome, the value it returns or the exception that leaves
  it, together with the events it caused, in order.
\<close>

type_synonym 'a call = "(py_exception + 'a) \<times> event list"

text \<open>
  The list comprehension \<^verbatim>\<open>[item["id"] for item in data]\<close>: \<^verbatim>\<open>KeyError\<close> at the first item
  without the key.
\<close>

fun item_ids :: "folder_item list \<Rightarrow> py_exception + asset_id list" where
  "item_ids [] = Inr []"
| "item_ids (None # items) = Inl KeyError"
| "item_ids (Some i # items) =
     (case item_ids items of Inl e \<Rightarrow> Inl e | Inr ids \<Rightarrow> Inr (i # ids))"

text \<open>
  \<^verbatim>\<open>get_folder_assets\<close> (lines 108 to 122). The \<^verbatim>\<open>try\<close> block holds the request and the
  list comprehension; its \<^verbatim>\<open>except\<close> clause catches \<^verbatim>\<open>requests.RequestException\<close> only.
\<close>

definition get_folder_assets :: "env \<Rightarrow> globals \<Rightarrow> string \<Rightarrow> asset_id list call" where
  "get_folder_assets env g abs_folder_path =
     (let immich_path = convert_to_immich_path (LIBRARY_ROOT g) abs_folder_path
      in case (case view_folder env (IMMICH_HOST g) (HEADERS g) immich_path of
                 Inl e \<Rightarrow> Inl e
               | Inr data \<Rightarrow> item_ids data) of
           Inr asset_ids \<Rightarrow> (Inr asset_ids, [Http (GetFolder immich_path)])
         | Inl e \<Rightarrow>
             (case e of
                RequestException m \<Rightarrow>
                  (Inr [], [Http (GetFolder immich_path), Print (ErrGetAssets immich_path m)])
              | _ \<Rightarrow> (Inl e, [Http (GetFolder immich_path)])))"

text \<open>
  A Python \<^verbatim>\<open>dict\<close> keeps its keys in insertion order; assigning to a key that is present
  keeps the key's position. \<^verbatim>\<open>dict.fromkeys(xs)\<close> assigns \<^verbatim>\<open>None\<close> to each element of
  \<^verbatim>\<open>xs\<close> in turn, and \<^verbatim>\<open>list(d)\<close> lists the keys.
\<close>

fun dict_setitem :: "('k \<times> 'v) list \<Rightarrow> 'k \<Rightarrow> 'v \<Rightarrow> ('k \<times> 'v) list" where
  "dict_setitem [] k v = [(k, v)]"
| "dict_setitem ((k', v') # d) k v =
     (if k' = k then (k', v) # d else (k', v') # dict_setitem d k v)"

definition dict_fromkeys :: "'k list \<Rightarrow> ('k \<times> unit) list" where
  "dict_fromkeys xs = foldl (\<lambda>d k. dict_setitem d k ()) [] xs"

definition dict_keys :: "('k \<times> 'v) list \<Rightarrow> 'k list" where
  "dict_keys d = map fst d"

text \<open>
  \<^verbatim>\<open>get_all_assets_recursive\<close> (lines 125 to 145). The loop over the subdirectories
  carries the identifiers and the events collected so far; an exception that leaves
  \<^verbatim>\<open>get_folder_assets\<close> ends it.
\<close>

fun get_all_assets_loop ::
  "env \<Rightarrow> globals \<Rightarrow> string list \<Rightarrow> asset_id list \<Rightarrow> event list \<Rightarrow> asset_id list call"
where
  "get_all_assets_loop env g [] all_asset_ids evs = (Inr all_asset_ids, evs)"
| "get_all_assets_loop env g (subdir # subdirs) all_asset_ids evs =
     (case get_folder_assets env g subdir of
        (Inl e, ev) \<Rightarrow> (Inl e, evs @ ev)
      | (Inr subdir_assets, ev) \<Rightarrow>
          get_all_assets_loop env g subdirs (all_asset_ids @ subdir_assets)
            (evs @ ev @
              (if subdir_assets \<noteq> []
               then [Print (FoundAssetsIn (length subdir_assets)
                              (convert_to_immich_path (LIBRARY_ROOT g) subdir))]
               else [])))"

definition get_all_assets_recursive :: "env \<Rightarrow> globals \<Rightarrow> string \<Rightarrow> asset_id list call" where
  "get_all_assets_recursive env g root_folder =
     (case get_folder_assets env g root_folder of
        (Inl e, ev) \<Rightarrow> (Inl e, ev)
      | (Inr root_assets, ev) \<Rightarrow>
          (case get_all_assets_loop env g (get_all_subdirectories env root_folder)
                  root_assets ev of
             (Inl e, evs) \<Rightarrow> (Inl e, evs)
           | (Inr all_asset_ids, evs) \<Rightarrow> (Inr (dict_keys (dict_fromkeys all_asset_ids)), evs)))"

text \<open>
  The words of the specification. Deduplication by first occurrence: an identifier is
  kept where it is first seen, and its later occurrences are dropped. The descendant
  directories of a directory, in the order a top-down walk visits them: each
  subdirectory, followed at once by its own descendants. The list a directory reports:
  what the folder query returns for it.
\<close>

fun dedup_first :: "'a list \<Rightarrow> 'a list" where
  "dedup_first [] = []"
| "dedup_first (x # xs) = x # dedup_first (removeAll x xs)"

fun descendants :: "string \<Rightarrow> dirtree \<Rightarrow> string list" where
  "descendants tp (Dir ents) =
     concat (map (\<lambda>e. os_path_join tp (fst e) # descendants (os_path_join tp (fst e)) (snd e))
                 ents)"

definition reported :: "env \<Rightarrow> globals \<Rightarrow> string \<Rightarrow> asset_id list" where
  "reported env g d = (case fst (get_folder_assets env g d) of Inr ids \<Rightarrow> ids | Inl e \<Rightarrow> [])"

text \<open>
  The order in which \<^verbatim>\<open>get_all_subdirectories\<close> lists the descendants: the subdirectories
  of a directory together, as the file system lists them, and after them what each of
  these subdirectories contributes in turn.
\<close>

fun by_listing :: "string \<Rightarrow> dirtree \<Rightarrow> string list" where
  "by_listing tp (Dir ents) =
     map (\<lambda>e. os_path_join tp (fst e)) ents
     @ concat (map (\<lambda>e. by_listing (os_path_join tp (fst e)) (snd e)) ents)"

text \<open>\<^verbatim>\<open>get_all_albums\<close> (lines 148 to 158) and \<^verbatim>\<open>album_exists\<close> (lines 161 to 164).\<close>

definition get_all_albums :: "env \<Rightarrow> globals \<Rightarrow> album list call" where
  "get_all_albums env g =
     (case list_albums env (IMMICH_HOST g) (HEADERS g) of
        Inr albums \<Rightarrow> (Inr albums, [Http GetAlbums])
      | Inl e \<Rightarrow>
          (case e of
             RequestException m \<Rightarrow> (Inr [], [Http GetAlbums, Print (ErrGetAlbums m)])
           | _ \<Rightarrow> (Inl e, [Http GetAlbums])))"

definition album_exists :: "env \<Rightarrow> globals \<Rightarrow> string \<Rightarrow> bool call" where
  "album_exists env g album_name =
     (case get_all_albums env g of
        (Inl e, ev) \<Rightarrow> (Inl e, ev)
      | (Inr albums, ev) \<Rightarrow>
          (Inr (list_ex (\<lambda>album. albumName album = Some album_name) albums), ev))"

text \<open>
  \<^verbatim>\<open>create_album\<close> (lines 167 to 189). No path of the function has a \<^verbatim>\<open>return\<close> with a
  value, so what the caller receives is Python's \<^verbatim>\<open>None\<close>; the returned value is modelled
  as a \<^typ>\<open>bool option\<close> with \<open>None\<close> for \<^verbatim>\<open>None\<close>, and \<open>truthy\<close> is its truth value.
\<close>

definition truthy :: "bool option \<Rightarrow> bool" where
  "truthy v = (v = Some True)"

definition create_album ::
  "env \<Rightarrow> globals \<Rightarrow> string \<Rightarrow> asset_id list \<Rightarrow> bool \<Rightarrow> bool option call" where
  "create_album env g album_name asset_ids dry_run =
     (case album_exists env g album_name of
        (Inl e, ev) \<Rightarrow> (Inl e, ev)
      | (Inr ex, ev) \<Rightarrow>
          if ex then (Inr None, ev @ [Print (SkipAlbumExists album_name)])
          else if dry_run
          then (Inr None, ev @ [Print (DryRunWouldCreate album_name (length asset_ids))])
          else (case post_album env (IMMICH_HOST g) (HEADERS g) album_name asset_ids of
                  Inr u \<Rightarrow>
                    (Inr None, ev @ [Http (PostAlbum album_name asset_ids),
                                     Print (OkAlbumCreated album_name (length asset_ids))])
                | Inl e \<Rightarrow>
                    (case e of
                       RequestException m \<Rightarrow>
                         (Inr None, ev @ [Http (PostAlbum album_name asset_ids),
                                          Print (ErrCreateAlbum album_name m)])
                     | _ \<Rightarrow> (Inl e, ev @ [Http (PostAlbum album_name asset_ids)]))))"

text \<open>\<^verbatim>\<open>add_assets_to_album\<close> (lines 192 to 212).\<close>

definition add_assets_to_album ::
  "env \<Rightarrow> globals \<Rightarrow> string option \<Rightarrow> asset_id list \<Rightarrow> bool \<Rightarrow> bool call" where
  "add_assets_to_album env g aid asset_ids dry_run =
     (if asset_ids = [] then (Inr False, [Print ErrNoAssets])
      else if dry_run then (Inr True, [Print (DryRunWouldAdd (length asset_ids))])
      else (case put_assets env (IMMICH_HOST g) (HEADERS g) aid asset_ids of
              Inr u \<Rightarrow>
                (Inr True, [Http (PutAssets aid asset_ids), Print (OkAdded (length asset_ids))])
            | Inl e \<Rightarrow>
                (case e of
                   RequestException m \<Rightarrow>
                     (Inr False, [Http (PutAssets aid asset_ids), Print (ErrAddAssets m)])
                 | _ \<Rightarrow> (Inl e, [Http (PutAssets aid asset_ids)]))))"

section \<open>Prompts\<close>

text \<open>
  Standard input is a finite sequence of events: a line the user enters, or an interrupt
  (Ctrl-C) while the program waits in \<^verbatim>\<open>input\<close>, which raises \<^verbatim>\<open>KeyboardInterrupt\<close>
  there. When the sequence is used up, \<^verbatim>\<open>input\<close> raises \<^verbatim>\<open>EOFError\<close>. Every call of
  \<^verbatim>\<open>input\<close> in the source stands in a \<^verbatim>\<open>try\<close> block that catches \<^verbatim>\<open>KeyboardInterrupt\<close>
  in the same function, so the interrupt is a branch of the function that reads. These
  blocks catch nothing else (but for the \<^verbatim>\<open>ValueError\<close> clause of
  \<^verbatim>\<open>select_album_interactive\<close>): \<^verbatim>\<open>EOFError\<close> and whatever a request lets through leave
  the function.

  A function that reads returns its outcome (an uncaught exception, or its value), the
  input left over, and the events it caused. Runs are modelled within the interpreter's
  recursion limit.
\<close>

datatype stdin_event = Line string | CtrlC

type_synonym 'a interaction = "(py_exception + 'a) \<times> stdin_event list \<times> event list"

definition events :: "'a interaction \<Rightarrow> event list" where
  "events r = snd (snd r)"

text \<open>What happened before a call comes first in the record of events.\<close>

definition after_events :: "event list \<Rightarrow> 'a interaction \<Rightarrow> 'a interaction" where
  "after_events evs r = (case r of (v, rest, evs') \<Rightarrow> (v, rest, evs @ evs'))"

text \<open>
  A call followed by the rest of the caller's body: an exception of the call ends the
  caller too, otherwise the body goes on with the value and the input left over.
\<close>

definition then_io ::
  "'a interaction \<Rightarrow> ('a \<Rightarrow> stdin_event list \<Rightarrow> 'b interaction) \<Rightarrow> 'b interaction" where
  "then_io m k =
     (case m of
        (Inl e, rest, evs) \<Rightarrow> (Inl e, rest, evs)
      | (Inr v, rest, evs) \<Rightarrow> after_events evs (k v rest))"

definition default_host :: string where
  "default_host = ''127.0.0.1:2283''"

text \<open>\<^verbatim>\<open>get_immich_host_from_user\<close> (lines 12 to 30).\<close>

fun get_immich_host_from_user :: "env \<Rightarrow> stdin_event list \<Rightarrow> string option interaction" where
  "get_immich_host_from_user env [] = (Inl EOFError, [], [])"
| "get_immich_host_from_user env (CtrlC # rest) = (Inr None, rest, [Print Cancelled])"
| "get_immich_host_from_user env (Line s # rest) =
     (let host = (if str_strip env s = [] then default_host else str_strip env s)
      in if CHR '':'' \<notin> set host
         then (case rest of
                 [] \<Rightarrow> (Inl EOFError, [], [Print (HostFormatWarning default_host)])
               | CtrlC # rest' \<Rightarrow>
                   (Inr None, rest', [Print (HostFormatWarning default_host), Print Cancelled])
               | Line c # rest' \<Rightarrow>
                   if str_lower env (str_strip env c) \<noteq> ''y''
                   then after_events [Print (HostFormatWarning default_host)]
                          (get_immich_host_from_user env rest')
                   else (Inr (Some host), rest', [Print (HostFormatWarning default_host)]))
         else (Inr (Some host), rest, []))"

text \<open>\<^verbatim>\<open>get_api_key_from_user\<close> (lines 33 to 44).\<close>

fun get_api_key_from_user :: "env \<Rightarrow> stdin_event list \<Rightarrow> string option interaction" where
  "get_api_key_from_user env [] = (Inl EOFError, [], [])"
| "get_api_key_from_user env (CtrlC # rest) = (Inr None, rest, [Print Cancelled])"
| "get_api_key_from_user env (Line s # rest) =
     (let api_key = str_strip env s
      in if api_key = []
         then after_events [Print ApiKeyEmpty] (get_api_key_from_user env rest)
         else (Inr (Some api_key), rest, []))"

text \<open>\<^verbatim>\<open>setup_headers\<close> (lines 47 to 52).\<close>

definition setup_headers :: "string \<Rightarrow> headers" where
  "setup_headers api_key = [(''x-api-key'', api_key), (''Content-Type'', ''application/json'')]"

text \<open>\<^verbatim>\<open>get_library_root_from_user\<close> (lines 55 to 87).\<close>

fun get_library_root_from_user :: "env \<Rightarrow> stdin_event list \<Rightarrow> string option interaction" where
  "get_library_root_from_user env [] = (Inl EOFError, [], [])"
| "get_library_root_from_user env (CtrlC # rest) = (Inr None, rest, [Print Cancelled])"
| "get_library_root_from_user env (Line s # rest) =
     (let path = str_strip env s;
          full_path = abspath env (expanduser env path)
      in if path = []
         then after_events [Print PathEmpty] (get_library_root_from_user env rest)
         else if \<not> os_path_exists env full_path
         then (case rest of
                 [] \<Rightarrow> (Inl EOFError, [], [Print (PathNotExist full_path)])
               | CtrlC # rest' \<Rightarrow>
                   (Inr None, rest', [Print (PathNotExist full_path), Print Cancelled])
               | Line r # rest' \<Rightarrow>
                   if str_lower env (str_strip env r) \<noteq> ''y''
                   then (Inr None, rest', [Print (PathNotExist full_path)])
                   else after_events [Print (PathNotExist full_path)]
                          (get_library_root_from_user env rest'))
         else if \<not> os_path_isdir env full_path
         then (case rest of
                 [] \<Rightarrow> (Inl EOFError, [], [Print (PathNotDir full_path)])
               | CtrlC # rest' \<Rightarrow>
                   (Inr None, rest', [Print (PathNotDir full_path), Print Cancelled])
               | Line r # rest' \<Rightarrow>
                   if str_lower env (str_strip env r) \<noteq> ''y''
                   then (Inr None, rest', [Print (PathNotDir full_path)])
                   else after_events [Print (PathNotDir full_path)]
                          (get_library_root_from_user env rest'))
         else (Inr (Some full_path), rest, []))"

text \<open>\<^verbatim>\<open>get_new_album_name\<close> (lines 215 to 232).\<close>

fun get_new_album_name ::
  "env \<Rightarrow> globals \<Rightarrow> stdin_event list \<Rightarrow> string option interaction" where
  "get_new_album_name env g [] = (Inl EOFError, [], [])"
| "get_new_album_name env g (CtrlC # rest) = (Inr None, rest, [Print Cancelled])"
| "get_new_album_name env g (Line s # rest) =
     (let album_name = str_strip env s
      in if album_name = []
         then after_events [Print AlbumNameEmpty] (get_new_album_name env g rest)
         else (case album_exists env g album_name of
                 (Inl e, ev) \<Rightarrow> (Inl e, rest, ev)
               | (Inr ex, ev) \<Rightarrow>
                   if ex
                   then after_events (ev @ [Print (AlbumNameTaken album_name)])
                          (get_new_album_name env g rest)
                   else (Inr (Some album_name), rest, ev)))"

text \<open>A prompt never leaves more input than it was given.\<close>

lemma get_new_album_name_input_left:
  "length (fst (snd (get_new_album_name env g inp))) \<le> length inp"
proof (induction inp rule: length_induct)
  case (1 inp)
  show ?case
  proof (cases inp)
    case Nil
    then show ?thesis by simp
  next
    case (Cons a rest)
    have IH: "length (fst (snd (get_new_album_name env g rest))) \<le> length rest"
      using 1 by (simp add: Cons)
    show ?thesis
    proof (cases a)
      case CtrlC
      with Cons show ?thesis by simp
    next
      case (Line s)
      obtain r ev where a: "album_exists env g (str_strip env s) = (r, ev)"
        by (cases "album_exists env g (str_strip env s)")
      show ?thesis
        unfolding Cons Line
        apply (subst get_new_album_name.simps)
        using IH
        by (cases r)
           (auto simp add: Let_def a after_events_def case_prod_beta
              simp del: get_new_album_name.simps)
    qed
  qed
qed

text \<open>
  \<^verbatim>\<open>select_album_interactive\<close> (lines 235 to 269). The default name of an album without
  the key \<^verbatim>\<open>albumName\<close> is a five-character Chinese string, given here in UTF-8. The call
  of \<^verbatim>\<open>get_new_album_name\<close> stands in the \<^verbatim>\<open>try\<close> block whose \<^verbatim>\<open>except ValueError\<close> clause
  is meant for \<^verbatim>\<open>int\<close>: a \<^verbatim>\<open>ValueError\<close> that leaves the call is caught there too, and the
  loop goes on.
\<close>

definition unnamed_album :: string where
  "unnamed_album =
     [CHR 0xE6, CHR 0x9C, CHR 0xAA, CHR 0xE5, CHR 0x91, CHR 0xBD, CHR 0xE5, CHR 0x90, CHR 0x8D,
      CHR 0xE7, CHR 0x9B, CHR 0xB8, CHR 0xE5, CHR 0x86, CHR 0x8C]"

function select_album_loop ::
  "env \<Rightarrow> globals \<Rightarrow> album list \<Rightarrow> stdin_event list \<Rightarrow> album option interaction" where
  "select_album_loop env g albums [] = (Inl EOFError, [], [])"
| "select_album_loop env g albums (CtrlC # rest) = (Inr None, rest, [Print Cancelled])"
| "select_album_loop env g albums (Line s # rest) =
     (let choice = str_strip env s
      in if choice = [] then select_album_loop env g albums rest
         else (case py_int env choice of
                 None \<Rightarrow> after_events [Print InvalidNumber] (select_album_loop env g albums rest)
               | Some choice_num \<Rightarrow>
                   if choice_num = 0
                   then (case get_new_album_name env g rest of
                           (Inl e, rest', ev) \<Rightarrow>
                             if is_value_error e
                             then after_events (ev @ [Print InvalidNumber])
                                    (select_album_loop env g albums rest')
                             else (Inl e, rest', ev)
                         | (Inr None, rest', ev) \<Rightarrow> (Inr None, rest', ev)
                         | (Inr (Some n), rest', ev) \<Rightarrow>
                             if n \<noteq> []
                             then (Inr (Some \<lparr>albumName = Some n, album_id = None,
                                              assetCount = None, create_new = Some True\<rparr>),
                                   rest', ev)
                             else (Inr None, rest', ev))
                   else if 1 \<le> choice_num \<and> choice_num \<le> int (length albums)
                   then (Inr (Some (albums ! nat (choice_num - 1))), rest, [])
                   else after_events [Print (ChoiceOutOfRange (length albums))]
                          (select_album_loop env g albums rest)))"
  by pat_completeness auto
termination
proof (relation "measure (\<lambda>(env, g, albums, inp). length inp)")
  show "wf (measure (\<lambda>(env, g, albums, inp). length inp))" by simp
next
  fix env g albums s rest x x2 xa y xb ya a
  assume "(xa, y) = get_new_album_name env g rest" and "(xb, ya) = y"
  then have "xb = fst (snd (get_new_album_name env g rest))"
    by (metis fst_conv snd_conv)
  then show "((env, g, albums, xb), env, g, albums, Line s # rest)
               \<in> measure (\<lambda>(env, g, albums, inp). length inp)"
    using get_new_album_name_input_left[of env g rest] by simp
qed simp_all

definition select_album_interactive ::
  "env \<Rightarrow> globals \<Rightarrow> stdin_event list \<Rightarrow> album option interaction" where
  "select_album_interactive env g inp =
     (case get_all_albums env g of
        (Inl e, ev) \<Rightarrow> (Inl e, inp, ev)
      | (Inr albums, ev) \<Rightarrow>
          after_events
            (ev @ [Print (AlbumsFound (length albums)), Print OptionCreateNew]
                @ map (\<lambda>(idx, album).
                         Print (AlbumEntry idx
                                  (case albumName album of None \<Rightarrow> unnamed_album | Some n \<Rightarrow> n)
                                  (case assetCount album of None \<Rightarrow> 0 | Some c \<Rightarrow> c)))
                      (zip [1 ..< Suc (length albums)] albums))
            (select_album_loop env g albums inp))"

text \<open>
  The collection of the assets of a target path, written out twice in the source (lines
  294 to 298 in \<^verbatim>\<open>get_path_from_user\<close>, lines 374 to 378 in
  \<^verbatim>\<open>interactive_album_manager\<close>): the recursive aggregation for a directory, the assets
  of the containing directory for anything else.
\<close>

definition collect_target_assets :: "env \<Rightarrow> globals \<Rightarrow> string \<Rightarrow> asset_id list call" where
  "collect_target_assets env g full_path =
     (if os_path_isdir env full_path
      then get_all_assets_recursive env g full_path
      else get_folder_assets env g (os_path_dirname full_path))"

text \<open>
  \<^verbatim>\<open>get_path_from_user\<close> (lines 272 to 314). \<^verbatim>\<open>os.path.join\<close> raises \<^verbatim>\<open>TypeError\<close> when
  the library root is still \<^verbatim>\<open>None\<close>.
\<close>

fun get_path_from_user ::
  "env \<Rightarrow> globals \<Rightarrow> stdin_event list \<Rightarrow> (string option \<times> nat) interaction" where
  "get_path_from_user env g [] = (Inl EOFError, [], [])"
| "get_path_from_user env g (CtrlC # rest) = (Inr (None, 0), rest, [Print Cancelled])"
| "get_path_from_user env g (Line s # rest) =
     (let path = str_strip env s
      in if path = []
         then after_events [Print PathEmpty] (get_path_from_user env g rest)
         else (case LIBRARY_ROOT g of
                 None \<Rightarrow> (Inl TypeError, rest, [])
               | Some root \<Rightarrow>
                   (let full_path = os_path_join root path
                    in if \<not> os_path_exists env full_path
                       then (case rest of
                               [] \<Rightarrow> (Inl EOFError, [], [Print (PathNotExist full_path)])
                             | CtrlC # rest' \<Rightarrow>
                                 (Inr (None, 0), rest',
                                  [Print (PathNotExist full_path), Print Cancelled])
                             | Line r # rest' \<Rightarrow>
                                 if str_lower env (str_strip env r) \<noteq> ''y''
                                 then (Inr (None, 0), rest', [Print (PathNotExist full_path)])
                                 else after_events [Print (PathNotExist full_path)]
                                        (get_path_from_user env g rest'))
                       else (case collect_target_assets env g full_path of
                               (Inl e, ev) \<Rightarrow>
                                 (Inl e, rest, [Print (QueryingPath full_path)] @ ev)
                             | (Inr asset_ids, ev) \<Rightarrow>
                                 (let asset_count = length asset_ids;
                                      evq = [Print (QueryingPath full_path)] @ ev
                                              @ [Print (FoundCount asset_count)]
                                  in if asset_count = 0
                                     then (case rest of
                                             [] \<Rightarrow>
                                               (Inl EOFError, [], evq @ [Print NoAssetsWarning])
                                           | CtrlC # rest' \<Rightarrow>
                                               (Inr (None, 0), rest',
                                                evq @ [Print NoAssetsWarning, Print Cancelled])
                                           | Line r # rest' \<Rightarrow>
                                               if str_lower env (str_strip env r) \<noteq> ''y''
                                               then (Inr (None, 0), rest',
                                                     evq @ [Print NoAssetsWarning])
                                               else after_events (evq @ [Print NoAssetsWarning])
                                                      (get_path_from_user env g rest'))
                                     else (Inr (Some full_path, asset_count), rest, evq))))))"

section \<open>The program\<close>

text \<open>
  The API key as \<^verbatim>\<open>interactive_album_manager\<close> shows it: stars for all but the last four
  characters.
\<close>

definition masked_key :: "string \<Rightarrow> string" where
  "masked_key k = replicate (length k - 4) (CHR ''*'') @ drop (length k - 4) k"

text \<open>
  \<^verbatim>\<open>interactive_album_manager\<close> (lines 317 to 404). The globals are assigned as the
  configuration is read; every function that reads them is called after the last
  assignment, so they are passed on as one value. Its outcome is what reaches the top
  level of the program.
\<close>

definition interactive_album_manager :: "env \<Rightarrow> bool \<Rightarrow> stdin_event list \<Rightarrow> unit interaction" where
  "interactive_album_manager env dry_run inp =
     after_events [Print Banner, Print ConfigHeader]
      (then_io (get_immich_host_from_user env inp) (\<lambda>host_opt inp1.
        case host_opt of
          None \<Rightarrow> (Inr (), inp1, [Print NoHostExit])
        | Some host \<Rightarrow>
      then_io (get_api_key_from_user env inp1) (\<lambda>key_opt inp2.
        case key_opt of
          None \<Rightarrow> (Inr (), inp2, [Print NoApiKeyExit])
        | Some key \<Rightarrow>
      then_io (get_library_root_from_user env inp2) (\<lambda>root_opt inp3.
        case root_opt of
          None \<Rightarrow> (Inr (), inp3, [Print NoLibraryRootExit])
        | Some root \<Rightarrow>
      (let g = \<lparr>IMMICH_HOST = Some host, API_KEY = Some key, LIBRARY_ROOT = Some root,
                HEADERS = Some (setup_headers key)\<rparr>
       in after_events
            [Print (ShowHost host), Print (ShowApiKey (masked_key key)),
             Print (ShowLibraryRoot root), Print SectionHeader]
      (then_io (select_album_interactive env g inp3) (\<lambda>selected_album inp4.
        case selected_album of
          None \<Rightarrow> (Inr (), inp4, [Print OperationCancelled])
        | Some selected \<Rightarrow>
      (let is_new_album = (case create_new selected of None \<Rightarrow> False | Some b \<Rightarrow> b);
           album_name = (case albumName selected of None \<Rightarrow> unnamed_album | Some n \<Rightarrow> n);
           aid = (if is_new_album then None else album_id selected)
       in after_events
            [if is_new_album then Print (WillCreateAlbum album_name)
             else Print (SelectedExisting album_name)]
      (then_io (get_path_from_user env g inp4) (\<lambda>(target_path, asset_count) inp5.
        case target_path of
          None \<Rightarrow> (Inr (), inp5, [Print OperationCancelled])
        | Some target \<Rightarrow>
      (case collect_target_assets env g target of
         (Inl e, ev) \<Rightarrow> (Inl e, inp5, ev)
       | (Inr asset_ids, ev) \<Rightarrow>
           if asset_ids = [] then (Inr (), inp5, ev @ [Print (NoAssetsInPath target)])
           else if is_new_album
           then (case create_album env g album_name asset_ids dry_run of
                   (Inl e, ev') \<Rightarrow> (Inl e, inp5, ev @ ev')
                 | (Inr success, ev') \<Rightarrow>
                     (Inr (), inp5,
                      ev @ ev' @
                      [if truthy success \<or> dry_run
                       then (if dry_run
                             then Print (DryRunCreateDone album_name (length asset_ids))
                             else Print (CreateSuccess album_name (length asset_ids)))
                       else Print CreateFailed]))
           else (case add_assets_to_album env g aid asset_ids dry_run of
                   (Inl e, ev') \<Rightarrow> (Inl e, inp5, ev @ ev')
                 | (Inr success, ev') \<Rightarrow>
                     (Inr (), inp5,
                      ev @ ev' @
                      [if success
                       then (if dry_run
                             then Print (DryRunAddDone (length asset_ids) album_name)
                             else Print (AddSuccess (length asset_ids) album_name))
                       else Print AddFailed])))))))))))))"

section \<open>Small worlds for concrete runs\<close>

text \<open>
  The library \<^verbatim>\<open>/lib\<close> has the subdirectories \<^verbatim>\<open>a\<close> (with a file \<^verbatim>\<open>p.jpg\<close>) and \<^verbatim>\<open>b\<close>,
  listed in this order; the server reports the assets 1 and 2 in \<^verbatim>\<open>a\<close>, 2 and 3 in \<^verbatim>\<open>b\<close>,
  none in the root, and knows one album, \<^verbatim>\<open>Holiday\<close>. Every request to a known path
  succeeds.
\<close>

definition example_globals :: globals where
  "example_globals =
     \<lparr>IMMICH_HOST = Some ''127.0.0.1:2283'', API_KEY = Some ''secretkey'',
      LIBRARY_ROOT = Some ''/lib'',
      HEADERS = Some [(''x-api-key'', ''secretkey''), (''Content-Type'', ''application/json'')]\<rparr>"

definition example_env :: env where
  "example_env =
     \<lparr>path_kind = (\<lambda>p.
          if p = ''/lib'' then Directory (Dir [(''a'', Dir []), (''b'', Dir [])])
          else if p = ''/lib/a'' \<or> p = ''/lib/b'' then Directory (Dir [])
          else if p = ''/lib/a/p.jpg'' then File
          else Missing),
      view_folder = (\<lambda>host hdrs p.
          if p = [] then Inr []
          else if p = ''a'' then Inr [Some ''1'', Some ''2'']
          else if p = ''b'' then Inr [Some ''2'', Some ''3'']
          else Inl (RequestException ''404'')),
      list_albums = (\<lambda>host hdrs.
          Inr [\<lparr>albumName = Some ''Holiday'', album_id = Some ''al1'',
                assetCount = Some 5, create_new = None\<rparr>]),
      post_album = (\<lambda>host hdrs n ids. Inr ()),
      put_assets = (\<lambda>host hdrs a ids. Inr ()),
      str_strip = (\<lambda>s. s),
      str_lower = (\<lambda>s. s),
      py_int = (\<lambda>s. if s = ''0'' then Some 0 else if s = ''1'' then Some 1 else None),
      expanduser = (\<lambda>s. s),
      abspath = (\<lambda>s. s)\<rparr>"

text \<open>The same world with a server that refuses every request.\<close>

definition failing_env :: env where
  "failing_env =
     example_env\<lparr>
       view_folder := (\<lambda>host hdrs p. Inl (RequestException ''connection refused'')),
       list_albums := (\<lambda>host hdrs. Inl (RequestException ''connection refused'')),
       post_album := (\<lambda>host hdrs n ids. Inl (RequestException ''connection refused'')),
       put_assets := (\<lambda>host hdrs a ids. Inl (RequestException ''connection refused''))\<rparr>"

text \<open>
  The same world where the folder response for \<^verbatim>\<open>a\<close> holds an item without the key
  \<^verbatim>\<open>id\<close>, and the same world where no request can be built because a header cannot be
  encoded.
\<close>

definition keyless_env :: env where
  "keyless_env =
     example_env\<lparr>
       view_folder := (\<lambda>host hdrs p. if p = ''a'' then Inr [Some ''1'', None] else Inr [])\<rparr>"

definition unencodable_env :: env where
  "unencodable_env =
     example_env\<lparr>
       view_folder := (\<lambda>host hdrs p. Inl UnicodeEncodeError),
       list_albums := (\<lambda>host hdrs. Inl UnicodeEncodeError),
       post_album := (\<lambda>host hdrs n ids. Inl UnicodeEncodeError),
       put_assets := (\<lambda>host hdrs a ids. Inl UnicodeEncodeError)\<rparr>"

text \<open>
  The first world with \<^verbatim>\<open>b\<close> listed before \<^verbatim>\<open>a\<close>, and a deeper library: \<^verbatim>\<open>/lib\<close> holds
  \<^verbatim>\<open>m\<close> and \<^verbatim>\<open>z\<close>, \<^verbatim>\<open>m\<close> holds \<^verbatim>\<open>k\<close>; the server reports asset 1 in \<^verbatim>\<open>m\<close>, 2 in \<^verbatim>\<open>m/k\<close>
  and 3 in \<^verbatim>\<open>z\<close>.
\<close>

definition b_first_env :: env where
  "b_first_env =
     example_env\<lparr>
       path_kind := (\<lambda>p.
          if p = ''/lib'' then Directory (Dir [(''b'', Dir []), (''a'', Dir [])])
          else if p = ''/lib/a'' \<or> p = ''/lib/b'' then Directory (Dir [])
          else Missing)\<rparr>"

definition deep_env :: env where
  "deep_env =
     example_env\<lparr>
       path_kind := (\<lambda>p.
          if p = ''/lib'' then Directory (Dir [(''m'', Dir [(''k'', Dir [])]), (''z'', Dir [])])
          else if p = ''/lib/m'' then Directory (Dir [(''k'', Dir [])])
          else if p = ''/lib/m/k'' \<or> p = ''/lib/z'' then Directory (Dir [])
          else Missing),
       view_folder := (\<lambda>host hdrs p.
          if p = ''m'' then Inr [Some ''1'']
          else if p = ''m/k'' then Inr [Some ''2'']
          else if p = ''z'' then Inr [Some ''3'']
          else Inr [])\<rparr>"

text \<open>
  Two sessions: the user creates a new album \<^verbatim>\<open>Trip\<close> from the directory \<^verbatim>\<open>a\<close>, or adds
  the assets found for the file \<^verbatim>\<open>a/p.jpg\<close> to the album \<^verbatim>\<open>Holiday\<close>.
\<close>

definition new_album_session :: "stdin_event list" where
  "new_album_session =
     [Line ''127.0.0.1:2283'', Line ''secretkey'', Line ''/lib'', Line ''0'', Line ''Trip'',
      Line ''a'']"

definition existing_album_session :: "stdin_event list" where
  "existing_album_session =
     [Line ''127.0.0.1:2283'', Line ''secretkey'', Line ''/lib'', Line ''1'', Line ''a/p.jpg'']"

section \<open>Evaluation of concrete runs\<close>

lemmas run_defs =
  interactive_album_manager_def then_io_def after_events_def events_def example_env_def
  failing_env_def keyless_env_def unencodable_env_def b_first_env_def deep_env_def
  example_globals_def
  select_album_interactive_def get_all_albums_def album_exists_def collect_target_assets_def
  os_path_isdir_def os_path_exists_def get_all_assets_recursive_def get_folder_assets_def
  get_all_subdirectories_def os_walk_def os_path_join_def os_path_dirname_def startswith_def
  endswith_def os_sep_def suffix_to_prefix convert_to_immich_path_def lstrip_def rstrip_def
  create_album_def add_assets_to_album_def dict_fromkeys_def dict_keys_def masked_key_def
  setup_headers_def default_host_def truthy_def unnamed_album_def reported_def Let_def
  new_album_session_def existing_album_session_def

section \<open>Path conversion\<close>

lemma lstrip_sep_shape:
  "\<exists>n. s = replicate n (CHR ''/'') @ lstrip s os_sep
     \<and> (lstrip s os_sep = [] \<or> hd (lstrip s os_sep) \<noteq> CHR ''/'')"
proof -
  let ?P = "\<lambda>c. c \<in> set os_sep"
  have "\<forall>y\<in>set (takeWhile ?P s). y = CHR ''/''"
    by (auto simp: os_sep_def dest: set_takeWhileD)
  then have eq: "takeWhile ?P s = replicate (length (takeWhile ?P s)) (CHR ''/'')"
    by (simp add: replicate_length_same)
  have split: "s = takeWhile ?P s @ lstrip s os_sep"
    by (simp add: lstrip_def)
  have "lstrip s os_sep = [] \<or> hd (lstrip s os_sep) \<noteq> CHR ''/''"
    using hd_dropWhile[of ?P s] by (auto simp: lstrip_def os_sep_def)
  with eq split show ?thesis by metis
qed

lemma lstrip_no_sep: "s = [] \<or> hd s \<noteq> CHR ''/'' \<Longrightarrow> lstrip s os_sep = s"
  by (cases s) (auto simp: lstrip_def os_sep_def)

lemma convert_strips_root_shape:
  assumes "root \<noteq> []" and "startswith p root"
  shows "\<exists>n. p = root @ replicate n (CHR ''/'') @ convert_to_immich_path (Some root) p
           \<and> (convert_to_immich_path (Some root) p = []
                \<or> hd (convert_to_immich_path (Some root) p) \<noteq> CHR ''/'')"
proof -
  from assms(2) obtain r where p: "p = root @ r"
    by (auto simp: startswith_def prefix_def)
  have c: "convert_to_immich_path (Some root) p = lstrip r os_sep"
    using assms by (simp add: convert_to_immich_path_def p)
  from lstrip_sep_shape[of r] c p show ?thesis by auto
qed

text \<open>
  C1, as the claim states it, fails: the code removes every leading separator of the
  remainder, not exactly one. With library root \<^verbatim>\<open>/lib\<close> the path \<^verbatim>\<open>/lib//a\<close> starts with
  the root, and the result is \<^verbatim>\<open>a\<close>; removing the root and exactly one separator would
  leave \<^verbatim>\<open>/a\<close>.
\<close>

theorem convert_exactly_one_sep_counterexample:
  "startswith ''/lib//a'' ''/lib''
   \<and> convert_to_immich_path (Some ''/lib'') ''/lib//a'' = ''a''
   \<and> ''/lib//a'' \<noteq> ''/lib'' @ os_sep @ convert_to_immich_path (Some ''/lib'') ''/lib//a''"
  by (simp add: convert_to_immich_path_def startswith_def lstrip_def os_sep_def)

text \<open>
  C1 (amended): for a non-empty library root and a path that starts with it,
  \<^verbatim>\<open>convert_to_immich_path\<close> returns the path with the library-root prefix and all the
  leading separators that follow it (none, one or several) removed: the path is the root,
  then a run of separators, then the result, and the result does not begin with a
  separator. When exactly one separator follows the root, exactly one is removed.
\<close>

theorem convert_strips_root_and_separators:
  assumes "root \<noteq> []" and "startswith p root"
  shows "(\<exists>n. p = root @ replicate n (CHR ''/'') @ convert_to_immich_path (Some root) p
            \<and> (convert_to_immich_path (Some root) p = []
                 \<or> hd (convert_to_immich_path (Some root) p) \<noteq> CHR ''/''))
         \<and> (\<forall>rest. (rest = [] \<or> hd rest \<noteq> CHR ''/'') \<and> p = root @ os_sep @ rest
                \<longrightarrow> convert_to_immich_path (Some root) p = rest)"
proof -
  from assms(2) obtain r where p: "p = root @ r"
    by (auto simp: startswith_def prefix_def)
  have c: "convert_to_immich_path (Some root) p = lstrip r os_sep"
    using assms by (simp add: convert_to_immich_path_def p)
  from lstrip_sep_shape[of r] c p
  have shape: "\<exists>n. p = root @ replicate n (CHR ''/'') @ convert_to_immich_path (Some root) p
           \<and> (convert_to_immich_path (Some root) p = []
                \<or> hd (convert_to_immich_path (Some root) p) \<noteq> CHR ''/'')"
    by auto
  have one: "convert_to_immich_path (Some root) p = rest"
    if rest: "rest = [] \<or> hd rest \<noteq> CHR ''/''" and p': "p = root @ os_sep @ rest" for rest
  proof -
    from p p' have r: "r = CHR ''/'' # rest" by (simp add: os_sep_def)
    show ?thesis
      using lstrip_no_sep[OF rest] by (simp add: c r lstrip_def os_sep_def)
  qed
  from shape one show ?thesis by blast
qed

theorem convert_strips_root_and_separators_witness:
  "''/lib'' \<noteq> [] \<and> startswith ''/lib/a/b.jpg'' ''/lib''
   \<and> convert_to_immich_path (Some ''/lib'') ''/lib/a/b.jpg'' = ''a/b.jpg''"
proof -
  have h1: "''/lib'' \<noteq> []" by simp
  have h2: "startswith ''/lib/a/b.jpg'' ''/lib''" by (simp add: startswith_def)
  have h3: "(''a/b.jpg'' = [] \<or> hd ''a/b.jpg'' \<noteq> CHR ''/'')
            \<and> ''/lib/a/b.jpg'' = ''/lib'' @ os_sep @ ''a/b.jpg''"
    by (simp add: os_sep_def)
  from convert_strips_root_and_separators[OF h1 h2] h3
  have "convert_to_immich_path (Some ''/lib'') ''/lib/a/b.jpg'' = ''a/b.jpg''" by blast
  with h1 h2 show ?thesis by simp
qed

text \<open>
  C2: a path that does not start with the library root is returned unchanged; so is every
  path while the library root is unset or empty.
\<close>

theorem convert_not_under_root_unchanged:
  "\<not> startswith p root \<Longrightarrow> convert_to_immich_path (Some root) p = p"
  by (simp add: convert_to_immich_path_def)

theorem convert_not_under_root_unchanged_witness:
  "\<not> startswith ''/mnt/photos/a'' ''/lib''
   \<and> convert_to_immich_path (Some ''/lib'') ''/mnt/photos/a'' = ''/mnt/photos/a''"
proof -
  have h: "\<not> startswith ''/mnt/photos/a'' ''/lib''" by (simp add: startswith_def)
  from convert_not_under_root_unchanged[OF h] h show ?thesis by simp
qed

lemma convert_unset_root_unchanged:
  "convert_to_immich_path None p = p" "convert_to_immich_path (Some []) p = p"
  by (simp_all add: convert_to_immich_path_def)

text \<open>
  The prefix test is on characters, not on path components: a sibling directory whose
  name extends the root's is converted too.
\<close>

lemma convert_sibling_directory:
  "convert_to_immich_path (Some ''/lib'') ''/library/a'' = ''rary/a''"
  by (simp add: convert_to_immich_path_def startswith_def lstrip_def os_sep_def)

text \<open>
  C9: when the library root is a non-empty absolute path (it begins with the separator),
  \<^verbatim>\<open>convert_to_immich_path\<close> is idempotent on every string.
\<close>

theorem convert_idempotent:
  assumes "startswith root os_sep"
  shows "convert_to_immich_path (Some root) (convert_to_immich_path (Some root) p)
         = convert_to_immich_path (Some root) p"
proof (cases "startswith p root")
  case False
  then show ?thesis by (simp add: convert_to_immich_path_def)
next
  case True
  from assms obtain r where root: "root = CHR ''/'' # r"
    by (auto simp: startswith_def os_sep_def prefix_def)
  then have ne: "root \<noteq> []" by simp
  let ?q = "convert_to_immich_path (Some root) p"
  from convert_strips_root_shape[OF ne True]
  have "?q = [] \<or> hd ?q \<noteq> CHR ''/''" by blast
  then have "\<not> startswith ?q root"
    by (cases ?q) (auto simp: startswith_def root)
  then show ?thesis by (simp add: convert_to_immich_path_def)
qed

theorem convert_idempotent_witness:
  "startswith ''/lib'' os_sep
   \<and> convert_to_immich_path (Some ''/lib'') (convert_to_immich_path (Some ''/lib'') ''/lib/lib/a'')
       = convert_to_immich_path (Some ''/lib'') ''/lib/lib/a''"
proof -
  have h: "startswith ''/lib'' os_sep" by (simp add: startswith_def os_sep_def)
  from convert_idempotent[OF h, of "''/lib/lib/a''"] h show ?thesis by simp
qed

section \<open>Asset aggregation\<close>

lemma dict_keys_setitem:
  "dict_keys (dict_setitem d k v) =
     (if k \<in> set (dict_keys d) then dict_keys d else dict_keys d @ [k])"
  by (induction d k v rule: dict_setitem.induct) (auto simp: dict_keys_def)

lemma removeAll_filter_conj: "removeAll x (filter P xs) = filter (\<lambda>y. y \<noteq> x \<and> P y) xs"
  by (induction xs) auto

lemma dict_keys_foldl_setitem:
  "dict_keys (foldl (\<lambda>d k. dict_setitem d k ()) d xs) =
     dict_keys d @ dedup_first (filter (\<lambda>x. x \<notin> set (dict_keys d)) xs)"
proof (induction xs arbitrary: d)
  case Nil
  show ?case by simp
next
  case (Cons x xs)
  show ?case
  proof (cases "x \<in> set (dict_keys d)")
    case True
    then show ?thesis by (simp add: Cons.IH dict_keys_setitem)
  next
    case False
    have "filter (\<lambda>y. y \<notin> set (dict_keys d @ [x])) xs
            = removeAll x (filter (\<lambda>y. y \<notin> set (dict_keys d)) xs)"
      by (simp add: removeAll_filter_conj)
    with False show ?thesis by (simp add: Cons.IH dict_keys_setitem)
  qed
qed

lemma dict_fromkeys_dedup_first: "dict_keys (dict_fromkeys xs) = dedup_first xs"
  using dict_keys_foldl_setitem[of "[]" xs] by (simp add: dict_fromkeys_def dict_keys_def)

lemma set_dedup_first: "set (dedup_first xs) = set xs"
  by (induction xs rule: dedup_first.induct) auto

lemma distinct_dedup_first: "distinct (dedup_first xs)"
  by (induction xs rule: dedup_first.induct) (auto simp: set_dedup_first)

lemma reported_returned: "fst (get_folder_assets env g d) = Inr ids \<Longrightarrow> reported env g d = ids"
  by (simp add: reported_def)

lemma get_all_assets_loop_value:
  "\<forall>d \<in> set subdirs. \<exists>ids. fst (get_folder_assets env g d) = Inr ids
   \<Longrightarrow> fst (get_all_assets_loop env g subdirs acc evs) =
         Inr (acc @ concat (map (reported env g) subdirs))"
proof (induction subdirs arbitrary: acc evs)
  case Nil
  show ?case by simp
next
  case (Cons d ds)
  from Cons.prems obtain ids where f: "fst (get_folder_assets env g d) = Inr ids" by auto
  then obtain ev where p: "get_folder_assets env g d = (Inr ids, ev)"
    by (cases "get_folder_assets env g d") simp
  from Cons.prems have "\<forall>d \<in> set ds. \<exists>ids. fst (get_folder_assets env g d) = Inr ids"
    by simp
  from Cons.IH[OF this] show ?case
    by (simp add: p reported_returned[OF f])
qed

lemma get_all_assets_recursive_value:
  assumes "\<forall>d \<in> set (root_folder # get_all_subdirectories env root_folder).
             \<exists>ids. fst (get_folder_assets env g d) = Inr ids"
  shows "fst (get_all_assets_recursive env g root_folder) =
     Inr (dedup_first (concat (map (reported env g)
                     (root_folder # get_all_subdirectories env root_folder))))"
proof -
  from assms obtain ra where f: "fst (get_folder_assets env g root_folder) = Inr ra" by auto
  then obtain ev where r: "get_folder_assets env g root_folder = (Inr ra, ev)"
    by (cases "get_folder_assets env g root_folder") simp
  from assms have s: "\<forall>d \<in> set (get_all_subdirectories env root_folder).
             \<exists>ids. fst (get_folder_assets env g d) = Inr ids"
    by simp
  obtain al evs where l:
    "get_all_assets_loop env g (get_all_subdirectories env root_folder) ra ev = (al, evs)"
    by (cases "get_all_assets_loop env g (get_all_subdirectories env root_folder) ra ev")
  have "al = Inr (ra @ concat (map (reported env g) (get_all_subdirectories env root_folder)))"
    using get_all_assets_loop_value[OF s, of ra ev] by (simp add: l)
  then show ?thesis
    by (simp add: get_all_assets_recursive_def r l dict_fromkeys_dedup_first
          reported_returned[OF f])
qed

text \<open>An exception that leaves one of the folder queries leaves the aggregation.\<close>

lemma get_all_assets_loop_raises:
  "d \<in> set subdirs \<Longrightarrow> fst (get_folder_assets env g d) = Inl e
   \<Longrightarrow> \<exists>e'. fst (get_all_assets_loop env g subdirs acc evs) = Inl e'"
proof (induction subdirs arbitrary: acc evs)
  case Nil
  then show ?case by simp
next
  case (Cons x xs)
  obtain r ev where p: "get_folder_assets env g x = (r, ev)"
    by (cases "get_folder_assets env g x")
  show ?case
  proof (cases r)
    case (Inl e')
    then show ?thesis by (simp add: p)
  next
    case (Inr ids)
    with Cons.prems p have "d \<in> set xs" by auto
    from Cons.IH[OF this Cons.prems(2)] show ?thesis by (simp add: p Inr)
  qed
qed

text \<open>
  The walk visits the root and then its descendants, each subdirectory followed at once
  by its own; \<^verbatim>\<open>get_all_subdirectories\<close> lists the same directories, each as often, but
  the subdirectories of one directory together.
\<close>

lemma walk_tree_visits: "map fst (walk_tree tp t) = tp # descendants tp t"
proof (induction tp t rule: walk_tree.induct)
  case (1 tp ents)
  have "concat (map (\<lambda>e. map fst (walk_tree (os_path_join tp (fst e)) (snd e))) ents)
          = concat (map (\<lambda>e. os_path_join tp (fst e)
                                # descendants (os_path_join tp (fst e)) (snd e)) ents)"
    using 1 by (intro arg_cong[where f = concat] map_cong) auto
  then show ?case by (simp add: map_concat comp_def)
qed

lemma concat_concat_map: "concat (concat (map f xs)) = concat (map (\<lambda>x. concat (f x)) xs)"
  by (induction xs) auto

lemma walk_tree_listing:
  "concat (map (\<lambda>(root, dirs). map (\<lambda>dir_name. os_path_join root dir_name) dirs)
               (walk_tree tp t)) = by_listing tp t"
proof (induction tp t rule: walk_tree.induct)
  case (1 tp ents)
  let ?f = "\<lambda>(root, dirs). map (\<lambda>dir_name. os_path_join root dir_name) dirs"
  have "concat (map (\<lambda>e. concat (map ?f (walk_tree (os_path_join tp (fst e)) (snd e)))) ents)
          = concat (map (\<lambda>e. by_listing (os_path_join tp (fst e)) (snd e)) ents)"
    using 1 by (intro arg_cong[where f = concat] map_cong) auto
  then show ?case by (simp add: map_concat comp_def concat_concat_map)
qed

lemma sum_list_add_mset:
  "(\<Sum>x\<leftarrow>xs. add_mset (f x) (h x)) = mset (map f xs) + (\<Sum>x\<leftarrow>xs. h x)"
  by (induction xs) auto

lemma mset_by_listing: "mset (by_listing tp t) = mset (descendants tp t)"
proof (induction tp t rule: by_listing.induct)
  case (1 tp ents)
  have "(\<Sum>e\<leftarrow>ents. mset (by_listing (os_path_join tp (fst e)) (snd e)))
          = (\<Sum>e\<leftarrow>ents. mset (descendants (os_path_join tp (fst e)) (snd e)))"
    using 1 by (intro arg_cong[where f = sum_list] map_cong) auto
  then show ?case
    by (simp add: mset_concat comp_def sum_list_add_mset)
qed

text \<open>
  C3, as the claim states it, fails in two ways. The order of the subdirectories is the
  file system's listing order, which the program does not choose: when \<^verbatim>\<open>/lib\<close> lists
  \<^verbatim>\<open>b\<close> before \<^verbatim>\<open>a\<close>, with \<^verbatim>\<open>/lib/a\<close> reporting 1, 2 and \<^verbatim>\<open>/lib/b\<close> reporting 2, 3, the
  result is 2, 3, 1 and not 1, 2, 3. And the lists are not concatenated in the order the
  walk visits the directories: in the deeper library the walk visits \<^verbatim>\<open>m\<close>, \<^verbatim>\<open>m/k\<close>,
  \<^verbatim>\<open>z\<close>, which would give 1, 2, 3, and the result is 1, 3, 2.
\<close>

theorem aggregation_walk_order_counterexample:
  "reported b_first_env example_globals ''/lib/a'' = [''1'', ''2'']
   \<and> reported b_first_env example_globals ''/lib/b'' = [''2'', ''3'']
   \<and> fst (get_all_assets_recursive b_first_env example_globals ''/lib'') = Inr [''2'', ''3'', ''1'']
   \<and> map fst (os_walk deep_env ''/lib'') = [''/lib'', ''/lib/m'', ''/lib/m/k'', ''/lib/z'']
   \<and> dedup_first (concat (map (reported deep_env example_globals)
                              (map fst (os_walk deep_env ''/lib'')))) = [''1'', ''2'', ''3'']
   \<and> fst (get_all_assets_recursive deep_env example_globals ''/lib'') = Inr [''1'', ''3'', ''2'']"
  by (simp add: run_defs)

text \<open>
  C3 (amended): when no folder query lets an exception through,
  \<^verbatim>\<open>get_all_assets_recursive\<close> returns the root directory's identifiers followed by those
  of the subdirectories, deduplicated by first occurrence, each identifier exactly once.
  The subdirectories are every descendant directory the walk visits, each as often as
  the walk visits it, in the order of \<^verbatim>\<open>get_all_subdirectories\<close>: the subdirectories of
  a directory together, as the file system lists them, first those of the root, then
  those of each visited directory in turn. For \<^verbatim>\<open>/lib\<close> with \<^verbatim>\<open>a\<close> (1, 2) listed before
  \<^verbatim>\<open>b\<close> (2, 3) the result is 1, 2, 3.
\<close>

theorem get_all_assets_recursive_first_seen:
  "((\<forall>d \<in> set (root_folder # get_all_subdirectories env root_folder).
        \<exists>ids. fst (get_folder_assets env g d) = Inr ids)
     \<longrightarrow> (\<exists>result.
           fst (get_all_assets_recursive env g root_folder) = Inr result
           \<and> result = dedup_first (concat (map (reported env g)
                         (root_folder # get_all_subdirectories env root_folder)))
           \<and> distinct result
           \<and> set result = (\<Union>d \<in> set (root_folder # get_all_subdirectories env root_folder).
                              set (reported env g d))))
   \<and> (path_kind env root_folder = Directory t
     \<longrightarrow> get_all_subdirectories env root_folder = by_listing root_folder t
         \<and> mset (get_all_subdirectories env root_folder) = mset (descendants root_folder t)
         \<and> map fst (os_walk env root_folder) = root_folder # descendants root_folder t)"
proof -
  have a: "\<exists>result.
           fst (get_all_assets_recursive env g root_folder) = Inr result
           \<and> result = dedup_first (concat (map (reported env g)
                         (root_folder # get_all_subdirectories env root_folder)))
           \<and> distinct result
           \<and> set result = (\<Union>d \<in> set (root_folder # get_all_subdirectories env root_folder).
                              set (reported env g d))"
    if h: "\<forall>d \<in> set (root_folder # get_all_subdirectories env root_folder).
        \<exists>ids. fst (get_folder_assets env g d) = Inr ids"
    using get_all_assets_recursive_value[OF h]
    by (simp add: distinct_dedup_first set_dedup_first)
  have b: "get_all_subdirectories env root_folder = by_listing root_folder t
         \<and> mset (get_all_subdirectories env root_folder) = mset (descendants root_folder t)
         \<and> map fst (os_walk env root_folder) = root_folder # descendants root_folder t"
    if k: "path_kind env root_folder = Directory t"
  proof -
    have l: "get_all_subdirectories env root_folder = by_listing root_folder t"
      using walk_tree_listing[of root_folder t]
      by (simp add: get_all_subdirectories_def os_walk_def k)
    have w: "map fst (os_walk env root_folder) = root_folder # descendants root_folder t"
      by (simp add: os_walk_def k walk_tree_visits)
    from l w show ?thesis by (simp add: mset_by_listing)
  qed
  from a b show ?thesis by blast
qed

theorem get_all_assets_recursive_first_seen_witness:
  "path_kind example_env ''/lib'' = Directory (Dir [(''a'', Dir []), (''b'', Dir [])])
   \<and> get_all_subdirectories example_env ''/lib'' = [''/lib/a'', ''/lib/b'']
   \<and> fst (get_all_assets_recursive example_env example_globals ''/lib'') = Inr [''1'', ''2'', ''3'']"
proof -
  have k: "path_kind example_env ''/lib'' = Directory (Dir [(''a'', Dir []), (''b'', Dir [])])"
    by (simp add: example_env_def)
  have s: "get_all_subdirectories example_env ''/lib'' = [''/lib/a'', ''/lib/b'']"
    by (simp add: run_defs)
  have f: "fst (get_folder_assets example_env example_globals ''/lib'') = Inr []"
    "fst (get_folder_assets example_env example_globals ''/lib/a'') = Inr [''1'', ''2'']"
    "fst (get_folder_assets example_env example_globals ''/lib/b'') = Inr [''2'', ''3'']"
    by (simp_all add: run_defs)
  have h: "\<forall>d \<in> set (''/lib'' # get_all_subdirectories example_env ''/lib'').
        \<exists>ids. fst (get_folder_assets example_env example_globals d) = Inr ids"
    by (simp add: s f)
  from get_all_assets_recursive_first_seen[of "''/lib''" example_env example_globals
         "Dir [(''a'', Dir []), (''b'', Dir [])]"] h k
  have "fst (get_all_assets_recursive example_env example_globals ''/lib'')
          = Inr (dedup_first (concat (map (reported example_env example_globals)
                         (''/lib'' # get_all_subdirectories example_env ''/lib''))))"
    by auto
  then have "fst (get_all_assets_recursive example_env example_globals ''/lib'')
          = Inr [''1'', ''2'', ''3'']"
    by (simp add: s reported_returned[OF f(1)] reported_returned[OF f(2)]
          reported_returned[OF f(3)])
  with k s show ?thesis by simp
qed

section \<open>Album creation and asset appending\<close>

text \<open>
  C5: when the album list the server returns contains an album of the given name,
  \<^verbatim>\<open>create_album\<close> issues the album-list query only, prints the skip message and returns
  normally, whatever the dry-run flag.
\<close>

theorem create_album_skips_existing:
  assumes "list_albums env (IMMICH_HOST g) (HEADERS g) = Inr albums"
    and "\<exists>a \<in> set albums. albumName a = Some album_name"
  shows "create_album env g album_name asset_ids dry_run =
           (Inr None, [Http GetAlbums, Print (SkipAlbumExists album_name)])"
  using assms
  by (simp add: create_album_def album_exists_def get_all_albums_def list_ex_iff)

theorem create_album_skips_existing_witness:
  "create_album example_env example_globals ''Holiday'' [''1''] False =
     (Inr None, [Http GetAlbums, Print (SkipAlbumExists ''Holiday'')])"
proof -
  let ?albums = "[\<lparr>albumName = Some ''Holiday'', album_id = Some ''al1'',
                    assetCount = Some 5, create_new = None\<rparr>]"
  have h1: "list_albums example_env (IMMICH_HOST example_globals) (HEADERS example_globals)
              = Inr ?albums"
    by (simp add: example_env_def)
  have h2: "\<exists>a \<in> set ?albums. albumName a = Some ''Holiday''" by simp
  from create_album_skips_existing[OF h1 h2] show ?thesis .
qed

text \<open>
  C10: for an empty list of asset identifiers \<^verbatim>\<open>add_assets_to_album\<close> prints the error
  message and returns \<^verbatim>\<open>False\<close> without any request, whatever the dry-run flag.
\<close>

theorem add_assets_empty_list:
  "add_assets_to_album env g aid [] dry_run = (Inr False, [Print ErrNoAssets])"
  by (simp add: add_assets_to_album_def)

section \<open>Events and outcomes of the prompts\<close>

lemma events_triple [simp]: "events (v, rest, evs) = evs"
  by (simp add: events_def)

lemma events_after_events [simp]: "events (after_events evs r) = evs @ events r"
  by (cases r) (simp add: after_events_def events_def)

lemma fst_after_events [simp]: "fst (after_events evs r) = fst r"
  by (cases r) (simp add: after_events_def)

lemma events_then_io:
  "events (then_io m k) =
     (case fst m of Inl e \<Rightarrow> events m | Inr v \<Rightarrow> events m @ events (k v (fst (snd m))))"
  by (cases m)
     (auto simp: then_io_def events_def after_events_def split: sum.splits prod.splits)

text \<open>No function other than the two that act on an album issues a mutating call.\<close>

lemma quiet_host: "filter is_mutating (events (get_immich_host_from_user env inp)) = []"
proof (induction env inp rule: get_immich_host_from_user.induct)
  case (3 env s rest)
  show ?case
    apply (subst get_immich_host_from_user.simps)
    using 3
    by (auto simp add: Let_def simp del: get_immich_host_from_user.simps
          split: list.split stdin_event.split)
qed simp_all

lemma quiet_key: "filter is_mutating (events (get_api_key_from_user env inp)) = []"
proof (induction env inp rule: get_api_key_from_user.induct)
  case (3 env s rest)
  show ?case
    apply (subst get_api_key_from_user.simps)
    using 3
    by (auto simp add: Let_def simp del: get_api_key_from_user.simps)
qed simp_all

lemma quiet_root: "filter is_mutating (events (get_library_root_from_user env inp)) = []"
proof (induction env inp rule: get_library_root_from_user.induct)
  case (3 env s rest)
  show ?case
    apply (subst get_library_root_from_user.simps)
    using 3
    by (auto simp add: Let_def simp del: get_library_root_from_user.simps
          split: list.split stdin_event.split)
qed simp_all

lemma quiet_folder: "filter is_mutating (snd (get_folder_assets env g p)) = []"
  by (simp add: get_folder_assets_def Let_def split: sum.split py_exception.split)

lemma quiet_loop:
  "filter is_mutating (snd (get_all_assets_loop env g ds acc evs)) = filter is_mutating evs"
proof (induction ds arbitrary: acc evs)
  case Nil
  show ?case by simp
next
  case (Cons d ds)
  obtain a ev where f: "get_folder_assets env g d = (a, ev)"
    by (cases "get_folder_assets env g d")
  have "filter is_mutating ev = []" using quiet_folder[of env g d] by (simp add: f)
  then show ?case by (cases a) (simp_all add: f Cons.IH)
qed

lemma quiet_recursive: "filter is_mutating (snd (get_all_assets_recursive env g p)) = []"
proof -
  obtain a ev where f: "get_folder_assets env g p = (a, ev)"
    by (cases "get_folder_assets env g p")
  have q: "filter is_mutating ev = []" using quiet_folder[of env g p] by (simp add: f)
  show ?thesis
  proof (cases a)
    case (Inl e)
    with q show ?thesis by (simp add: get_all_assets_recursive_def f)
  next
    case (Inr ra)
    obtain al evs where l:
      "get_all_assets_loop env g (get_all_subdirectories env p) ra ev = (al, evs)"
      by (cases "get_all_assets_loop env g (get_all_subdirectories env p) ra ev")
    have "filter is_mutating evs = []"
      using quiet_loop[of env g "get_all_subdirectories env p" ra ev] q by (simp add: l)
    then show ?thesis
      by (cases al) (simp_all add: get_all_assets_recursive_def f Inr l)
  qed
qed

lemma quiet_collect: "filter is_mutating (snd (collect_target_assets env g p)) = []"
  by (simp add: collect_target_assets_def quiet_recursive quiet_folder)

lemma quiet_albums: "filter is_mutating (snd (get_all_albums env g)) = []"
  by (simp add: get_all_albums_def split: sum.split py_exception.split)

lemma quiet_exists: "filter is_mutating (snd (album_exists env g n)) = []"
proof -
  obtain r ev where a: "get_all_albums env g = (r, ev)" by (cases "get_all_albums env g")
  have "filter is_mutating ev = []" using quiet_albums[of env g] by (simp add: a)
  then show ?thesis by (cases r) (simp_all add: album_exists_def a)
qed

lemma quiet_new_name: "filter is_mutating (events (get_new_album_name env g inp)) = []"
proof (induction env g inp rule: get_new_album_name.induct)
  case (3 env g s rest)
  obtain r ev where a: "album_exists env g (str_strip env s) = (r, ev)"
    by (cases "album_exists env g (str_strip env s)")
  have q: "filter is_mutating ev = []"
    using quiet_exists[of env g "str_strip env s"] by (simp add: a)
  show ?case
    apply (subst get_new_album_name.simps)
    using 3 a q
    by (cases r) (auto simp add: Let_def simp del: get_new_album_name.simps)
qed simp_all

lemma quiet_select_loop:
  "filter is_mutating (events (select_album_loop env g albums inp)) = []"
proof (induction inp rule: length_induct)
  case (1 inp)
  show ?case
  proof (cases inp)
    case Nil
    then show ?thesis by simp
  next
    case (Cons a rest)
    show ?thesis
    proof (cases a)
      case CtrlC
      with Cons show ?thesis by simp
    next
      case (Line s)
      have IH: "filter is_mutating (events (select_album_loop env g albums ys)) = []"
        if "length ys \<le> length rest" for ys
        using 1 that by (simp add: Cons)
      obtain r rest' ev where n: "get_new_album_name env g rest = (r, rest', ev)"
        by (cases "get_new_album_name env g rest")
      have q: "filter is_mutating ev = []"
        using quiet_new_name[of env g rest] by (simp add: n)
      have l: "length rest' \<le> length rest"
        using get_new_album_name_input_left[of env g rest] by (simp add: n)
      show ?thesis
        unfolding Cons Line
        apply (subst select_album_loop.simps)
        by (auto simp add: Let_def IH n q l simp del: select_album_loop.simps
              split: option.split sum.split)
    qed
  qed
qed

lemma quiet_select: "filter is_mutating (events (select_album_interactive env g inp)) = []"
proof -
  obtain r ev where a: "get_all_albums env g = (r, ev)"
    by (cases "get_all_albums env g")
  have q: "filter is_mutating ev = []" using quiet_albums[of env g] by (simp add: a)
  have m: "filter is_mutating (map (\<lambda>(idx, album). Print (f idx album)) zs) = []" for f zs
    by (induction zs) auto
  show ?thesis
    by (cases r) (simp_all add: select_album_interactive_def a q quiet_select_loop m)
qed

lemma quiet_path: "filter is_mutating (events (get_path_from_user env g inp)) = []"
proof (induction inp rule: length_induct)
  case (1 inp)
  show ?case
  proof (cases inp)
    case Nil
    then show ?thesis by simp
  next
    case (Cons a rest)
    show ?thesis
    proof (cases a)
      case CtrlC
      with Cons show ?thesis by simp
    next
      case (Line s)
      have IH: "filter is_mutating (events (get_path_from_user env g ys)) = []"
        if "length ys \<le> length rest" for ys
        using 1 that by (simp add: Cons)
      have c: "filter is_mutating ev = []" if "collect_target_assets env g p = (r, ev)"
        for p r ev
        using quiet_collect[of env g p] that by simp
      show ?thesis
        unfolding Cons Line
        apply (subst get_path_from_user.simps)
        by (auto simp add: Let_def IH c simp del: get_path_from_user.simps
              split: list.split stdin_event.split option.split prod.split sum.split)
    qed
  qed
qed

lemma quiet_create_dry: "filter is_mutating (snd (create_album env g n ids True)) = []"
proof -
  obtain r ev where a: "album_exists env g n = (r, ev)" by (cases "album_exists env g n")
  have "filter is_mutating ev = []" using quiet_exists[of env g n] by (simp add: a)
  then show ?thesis by (cases r) (simp_all add: create_album_def a)
qed

lemma quiet_add_dry: "filter is_mutating (snd (add_assets_to_album env g a ids True)) = []"
  by (simp add: add_assets_to_album_def)

lemma not_in_quiet: "filter is_mutating xs = [] \<Longrightarrow> is_mutating e \<Longrightarrow> e \<notin> set xs"
  by (auto simp: filter_empty_conv)

text \<open>
  No \<^verbatim>\<open>RequestException\<close> leaves a function: each call site catches it, and nothing else
  raises one.
\<close>

lemma item_ids_missing: "None \<in> set data \<Longrightarrow> item_ids data = Inl KeyError"
  by (induction data rule: item_ids.induct) auto

lemma caught_folder: "fst (get_folder_assets env g p) \<noteq> Inl (RequestException m)"
  by (simp add: get_folder_assets_def Let_def split: sum.split py_exception.split)

lemma caught_loop: "fst (get_all_assets_loop env g ds acc evs) \<noteq> Inl (RequestException m)"
proof (induction ds arbitrary: acc evs)
  case Nil
  show ?case by simp
next
  case (Cons d ds)
  obtain a ev where f: "get_folder_assets env g d = (a, ev)"
    by (cases "get_folder_assets env g d")
  have "a \<noteq> Inl (RequestException m)" using caught_folder[of env g d m] by (simp add: f)
  then show ?case by (cases a) (simp_all add: f Cons.IH)
qed

lemma caught_recursive: "fst (get_all_assets_recursive env g p) \<noteq> Inl (RequestException m)"
proof -
  obtain a ev where f: "get_folder_assets env g p = (a, ev)"
    by (cases "get_folder_assets env g p")
  have q: "a \<noteq> Inl (RequestException m)" using caught_folder[of env g p m] by (simp add: f)
  show ?thesis
  proof (cases a)
    case (Inl e)
    with q show ?thesis by (simp add: get_all_assets_recursive_def f)
  next
    case (Inr ra)
    obtain al evs where l:
      "get_all_assets_loop env g (get_all_subdirectories env p) ra ev = (al, evs)"
      by (cases "get_all_assets_loop env g (get_all_subdirectories env p) ra ev")
    have "al \<noteq> Inl (RequestException m)"
      using caught_loop[of env g "get_all_subdirectories env p" ra ev m] by (simp add: l)
    then show ?thesis
      by (cases al) (simp_all add: get_all_assets_recursive_def f Inr l)
  qed
qed

lemma caught_collect: "fst (collect_target_assets env g p) \<noteq> Inl (RequestException m)"
  by (simp add: collect_target_assets_def caught_recursive caught_folder)

lemma caught_albums: "fst (get_all_albums env g) \<noteq> Inl (RequestException m)"
  by (simp add: get_all_albums_def split: sum.split py_exception.split)

lemma caught_exists: "fst (album_exists env g n) \<noteq> Inl (RequestException m)"
proof -
  obtain r ev where a: "get_all_albums env g = (r, ev)" by (cases "get_all_albums env g")
  have "r \<noteq> Inl (RequestException m)" using caught_albums[of env g m] by (simp add: a)
  then show ?thesis by (cases r) (simp_all add: album_exists_def a)
qed

lemma caught_create: "fst (create_album env g n ids d) \<noteq> Inl (RequestException m)"
proof -
  obtain r ev where a: "album_exists env g n = (r, ev)" by (cases "album_exists env g n")
  have "r \<noteq> Inl (RequestException m)" using caught_exists[of env g n m] by (simp add: a)
  then show ?thesis
    by (cases r) (simp_all add: create_album_def a split: sum.split py_exception.split)
qed

lemma caught_add: "fst (add_assets_to_album env g a ids d) \<noteq> Inl (RequestException m)"
  by (simp add: add_assets_to_album_def split: sum.split py_exception.split)

lemma caught_host: "fst (get_immich_host_from_user env inp) \<noteq> Inl (RequestException m)"
proof (induction env inp rule: get_immich_host_from_user.induct)
  case (3 env s rest)
  show ?case
    apply (subst get_immich_host_from_user.simps)
    using 3
    by (auto simp add: Let_def simp del: get_immich_host_from_user.simps
          split: list.split stdin_event.split)
qed simp_all

lemma caught_key: "fst (get_api_key_from_user env inp) \<noteq> Inl (RequestException m)"
proof (induction env inp rule: get_api_key_from_user.induct)
  case (3 env s rest)
  show ?case
    apply (subst get_api_key_from_user.simps)
    using 3
    by (auto simp add: Let_def simp del: get_api_key_from_user.simps)
qed simp_all

lemma caught_root: "fst (get_library_root_from_user env inp) \<noteq> Inl (RequestException m)"
proof (induction env inp rule: get_library_root_from_user.induct)
  case (3 env s rest)
  show ?case
    apply (subst get_library_root_from_user.simps)
    using 3
    by (auto simp add: Let_def simp del: get_library_root_from_user.simps
          split: list.split stdin_event.split)
qed simp_all

lemma caught_new_name: "fst (get_new_album_name env g inp) \<noteq> Inl (RequestException m)"
proof (induction env g inp rule: get_new_album_name.induct)
  case (3 env g s rest)
  obtain r ev where a: "album_exists env g (str_strip env s) = (r, ev)"
    by (cases "album_exists env g (str_strip env s)")
  have q: "r \<noteq> Inl (RequestException m)"
    using caught_exists[of env g "str_strip env s" m] by (simp add: a)
  show ?case
    apply (subst get_new_album_name.simps)
    using 3 a q
    by (cases r) (auto simp add: Let_def simp del: get_new_album_name.simps)
qed simp_all

lemma caught_select_loop:
  "fst (select_album_loop env g albums inp) \<noteq> Inl (RequestException m)"
proof (induction inp rule: length_induct)
  case (1 inp)
  show ?case
  proof (cases inp)
    case Nil
    then show ?thesis by simp
  next
    case (Cons a rest)
    show ?thesis
    proof (cases a)
      case CtrlC
      with Cons show ?thesis by simp
    next
      case (Line s)
      have IH: "fst (select_album_loop env g albums ys) \<noteq> Inl (RequestException m)"
        if "length ys \<le> length rest" for ys
        using 1 that by (simp add: Cons)
      obtain r rest' ev where n: "get_new_album_name env g rest = (r, rest', ev)"
        by (cases "get_new_album_name env g rest")
      have q: "r \<noteq> Inl (RequestException m)"
        using caught_new_name[of env g rest m] by (simp add: n)
      have l: "length rest' \<le> length rest"
        using get_new_album_name_input_left[of env g rest] by (simp add: n)
      show ?thesis
        unfolding Cons Line
        apply (subst select_album_loop.simps)
        using q
        by (auto simp add: Let_def IH n l simp del: select_album_loop.simps
              split: option.split sum.split)
    qed
  qed
qed

lemma caught_select:
  "fst (select_album_interactive env g inp) \<noteq> Inl (RequestException m)"
proof -
  obtain r ev where a: "get_all_albums env g = (r, ev)"
    by (cases "get_all_albums env g")
  have q: "r \<noteq> Inl (RequestException m)" using caught_albums[of env g m] by (simp add: a)
  then show ?thesis
    by (cases r) (simp_all add: select_album_interactive_def a caught_select_loop)
qed

lemma caught_path: "fst (get_path_from_user env g inp) \<noteq> Inl (RequestException m)"
proof (induction inp rule: length_induct)
  case (1 inp)
  show ?case
  proof (cases inp)
    case Nil
    then show ?thesis by simp
  next
    case (Cons a rest)
    show ?thesis
    proof (cases a)
      case CtrlC
      with Cons show ?thesis by simp
    next
      case (Line s)
      have IH: "fst (get_path_from_user env g ys) \<noteq> Inl (RequestException m)"
        if "length ys \<le> length rest" for ys
        using 1 that by (simp add: Cons)
      have c: "r \<noteq> Inl (RequestException m)" if "collect_target_assets env g p = (r, ev)"
        for p r ev
        using caught_collect[of env g p m] that by simp
      show ?thesis
        unfolding Cons Line
        apply (subst get_path_from_user.simps)
        by (auto simp add: Let_def IH simp del: get_path_from_user.simps dest: c
              split: list.split stdin_event.split option.split prod.split sum.split)
    qed
  qed
qed

lemma caught_then_io:
  "fst m \<noteq> Inl (RequestException x) \<Longrightarrow> (\<And>v rest. fst (k v rest) \<noteq> Inl (RequestException x))
   \<Longrightarrow> fst (then_io m k) \<noteq> Inl (RequestException x)"
  by (cases m) (auto simp: then_io_def split: sum.split)

lemma caught_after:
  "fst r \<noteq> Inl (RequestException x) \<Longrightarrow> fst (after_events evs r) \<noteq> Inl (RequestException x)"
  by simp

lemma caught_option:
  "fst a \<noteq> Inl (RequestException x) \<Longrightarrow> (\<And>y. fst (b y) \<noteq> Inl (RequestException x))
   \<Longrightarrow> fst (case v of None \<Rightarrow> a | Some y \<Rightarrow> b y) \<noteq> Inl (RequestException x)"
  by (cases v) simp_all

lemma caught_prod:
  "(\<And>y z. fst (b y z rest) \<noteq> Inl (RequestException x))
   \<Longrightarrow> fst ((case v of (y, z) \<Rightarrow> b y z) rest) \<noteq> Inl (RequestException x)"
  by (cases v) simp

lemma caught_manager:
  "fst (interactive_album_manager env d inp) \<noteq> Inl (RequestException m)"
proof -
  have final: "fst (case collect_target_assets env g t of
         (Inl e, ev) \<Rightarrow> (Inl e, rest, ev)
       | (Inr asset_ids, ev) \<Rightarrow>
           if asset_ids = [] then (Inr (), rest, ev @ [Print (NoAssetsInPath t)])
           else if new
           then (case create_album env g n asset_ids d of
                   (Inl e, ev') \<Rightarrow> (Inl e, rest, ev @ ev')
                 | (Inr success, ev') \<Rightarrow>
                     (Inr (), rest,
                      ev @ ev' @
                      [if truthy success \<or> d
                       then (if d
                             then Print (DryRunCreateDone n (length asset_ids))
                             else Print (CreateSuccess n (length asset_ids)))
                       else Print CreateFailed]))
           else (case add_assets_to_album env g a asset_ids d of
                   (Inl e, ev') \<Rightarrow> (Inl e, rest, ev @ ev')
                 | (Inr success, ev') \<Rightarrow>
                     (Inr (), rest,
                      ev @ ev' @
                      [if success
                       then (if d
                             then Print (DryRunAddDone (length asset_ids) n)
                             else Print (AddSuccess (length asset_ids) n))
                       else Print AddFailed]))) \<noteq> Inl (RequestException m)"
    for g t rest new n a
  proof -
    obtain r ev where c: "collect_target_assets env g t = (r, ev)"
      by (cases "collect_target_assets env g t")
    have rc: "r \<noteq> Inl (RequestException m)" using caught_collect[of env g t m] by (simp add: c)
    show ?thesis
    proof (cases r)
      case (Inl e)
      with rc show ?thesis by (simp add: c)
    next
      case (Inr ids)
      obtain cr cev where cr: "create_album env g n ids d = (cr, cev)"
        by (cases "create_album env g n ids d")
      obtain ar aev where ar: "add_assets_to_album env g a ids d = (ar, aev)"
        by (cases "add_assets_to_album env g a ids d")
      have 1: "cr \<noteq> Inl (RequestException m)"
        using caught_create[of env g n ids d m] by (simp add: cr)
      have 2: "ar \<noteq> Inl (RequestException m)"
        using caught_add[of env g a ids d m] by (simp add: ar)
      from 1 2 show ?thesis
        by (cases cr; cases ar) (simp_all add: c Inr cr ar)
    qed
  qed
  show ?thesis
    unfolding interactive_album_manager_def Let_def
    by (intro caught_after caught_then_io caught_option caught_prod final
          caught_host caught_key caught_root caught_select caught_path) simp_all
qed

lemma post_in_create:
  "Http (PostAlbum n ids) \<in> set (snd (create_album env g n' ids' False))
   \<Longrightarrow> n = n' \<and> ids = ids'
       \<and> Print (DryRunWouldCreate n' (length ids')) \<in> set (snd (create_album env g n' ids' True))"
proof -
  assume p: "Http (PostAlbum n ids) \<in> set (snd (create_album env g n' ids' False))"
  obtain r ev where a: "album_exists env g n' = (r, ev)" by (cases "album_exists env g n'")
  have q: "Http (PostAlbum n ids) \<notin> set ev"
    using not_in_quiet[OF quiet_exists, of "Http (PostAlbum n ids)" env g n'] by (simp add: a)
  from p q show ?thesis
    by (cases r)
       (auto simp: create_album_def a split: if_splits sum.splits py_exception.splits)
qed


lemma put_in_add:
  "Http (PutAssets a ids) \<in> set (snd (add_assets_to_album env g a' ids' False))
   \<Longrightarrow> a = a' \<and> ids = ids'
       \<and> Print (DryRunWouldAdd (length ids')) \<in> set (snd (add_assets_to_album env g a' ids' True))"
  by (auto simp: add_assets_to_album_def split: if_splits sum.splits py_exception.splits)

lemma put_not_in_create: "Http (PutAssets a ids) \<notin> set (snd (create_album env g n ids' d))"
proof -
  obtain r ev where a: "album_exists env g n = (r, ev)" by (cases "album_exists env g n")
  have q: "Http (PutAssets a ids) \<notin> set ev"
    using not_in_quiet[OF quiet_exists, of "Http (PutAssets a ids)" env g n] by (simp add: a)
  then show ?thesis
    by (cases r)
       (auto simp: create_album_def a split: if_splits sum.splits py_exception.splits)
qed

lemma post_not_in_add: "Http (PostAlbum n ids) \<notin> set (snd (add_assets_to_album env g a ids' d))"
  by (auto simp: add_assets_to_album_def split: if_splits sum.splits py_exception.splits)


text \<open>
  The shape of a run: events without a mutating call that do not depend on the dry-run
  flag, followed by nothing more, or by \<^verbatim>\<open>create_album\<close> and, when it returns, the line
  that reports its outcome, or by \<^verbatim>\<open>add_assets_to_album\<close> (for a non-empty list) and its
  report. In the last two cases the run ends as the call does.
\<close>

lemma manager_events_shape:
  "\<exists>pre. filter is_mutating pre = [] \<and>
     ((\<forall>d. events (interactive_album_manager env d inp) = pre)
      \<or> (\<exists>g n ids. \<forall>d.
            events (interactive_album_manager env d inp) =
              pre @ snd (create_album env g n ids d)
                @ (case fst (create_album env g n ids d) of
                     Inl e \<Rightarrow> []
                   | Inr success \<Rightarrow>
                       [if truthy success \<or> d
                        then (if d then Print (DryRunCreateDone n (length ids))
                              else Print (CreateSuccess n (length ids)))
                        else Print CreateFailed])
            \<and> fst (interactive_album_manager env d inp) =
                (case fst (create_album env g n ids d) of
                   Inl e \<Rightarrow> Inl e | Inr success \<Rightarrow> Inr ()))
      \<or> (\<exists>g a ids n. ids \<noteq> [] \<and> (\<forall>d.
            events (interactive_album_manager env d inp) =
              pre @ snd (add_assets_to_album env g a ids d)
                @ (case fst (add_assets_to_album env g a ids d) of
                     Inl e \<Rightarrow> []
                   | Inr success \<Rightarrow>
                       [if success
                        then (if d then Print (DryRunAddDone (length ids) n)
                              else Print (AddSuccess (length ids) n))
                        else Print AddFailed])
            \<and> fst (interactive_album_manager env d inp) =
                (case fst (add_assets_to_album env g a ids d) of
                   Inl e \<Rightarrow> Inl e | Inr success \<Rightarrow> Inr ()))))"
proof -
  define fc where "fc = (\<lambda>g n ids d.
    snd (create_album env g n ids d)
      @ (case fst (create_album env g n ids d) of
           Inl e \<Rightarrow> []
         | Inr success \<Rightarrow>
             [if truthy success \<or> d
              then (if d then Print (DryRunCreateDone n (length ids))
                    else Print (CreateSuccess n (length ids)))
              else Print CreateFailed]))"
  define oc where "oc = (\<lambda>g n ids d.
    case fst (create_album env g n ids d) of
      Inl e \<Rightarrow> (Inl e :: py_exception + unit) | Inr success \<Rightarrow> Inr ())"
  define fa where "fa = (\<lambda>g a ids n d.
    snd (add_assets_to_album env g a ids d)
      @ (case fst (add_assets_to_album env g a ids d) of
           Inl e \<Rightarrow> []
         | Inr success \<Rightarrow>
             [if success
              then (if d then Print (DryRunAddDone (length ids) n)
                    else Print (AddSuccess (length ids) n))
              else Print AddFailed]))"
  define oa where "oa = (\<lambda>g a ids d.
    case fst (add_assets_to_album env g a ids d) of
      Inl e \<Rightarrow> (Inl e :: py_exception + unit) | Inr success \<Rightarrow> Inr ())"
  define S where "S = (\<lambda>(r :: bool \<Rightarrow> unit interaction) pre.
    (\<forall>d. events (r d) = pre)
    \<or> (\<exists>g n ids. \<forall>d. events (r d) = pre @ fc g n ids d \<and> fst (r d) = oc g n ids d)
    \<or> (\<exists>g a ids n. ids \<noteq> []
          \<and> (\<forall>d. events (r d) = pre @ fa g a ids n d \<and> fst (r d) = oa g a ids d)))"
  define D where "D = (\<lambda>r :: bool \<Rightarrow> unit interaction.
    \<exists>pre. filter is_mutating pre = [] \<and> S r pre)"
  have D_I: "D r" if "filter is_mutating pre = []" "S r pre" for r pre
    unfolding D_def using that by blast
  have D_const: "D (\<lambda>d. r)" if "filter is_mutating (events r) = []" for r
    by (rule D_I[of "events r"]) (use that in \<open>simp_all add: S_def\<close>)
  have D_after: "D (\<lambda>d. after_events evs (r d))"
    if q: "filter is_mutating evs = []" and r: "D r" for evs r
  proof -
    from r obtain pre where pre: "filter is_mutating pre = []" and s: "S r pre"
      unfolding D_def by blast
    from s have "S (\<lambda>d. after_events evs (r d)) (evs @ pre)"
      unfolding S_def by simp
    with q pre show ?thesis by (intro D_I[of "evs @ pre"]) simp_all
  qed
  have D_then: "D (\<lambda>d. then_io m (k d))"
    if q: "filter is_mutating (events m) = []" and k: "\<And>v rest. D (\<lambda>d. k d v rest)" for m k
  proof -
    obtain r rest evs where m: "m = (r, rest, evs)" by (cases m)
    show ?thesis
    proof (cases r)
      case (Inl e)
      then have e: "(\<lambda>d. then_io m (k d)) = (\<lambda>d. (Inl e, rest, evs))"
        by (simp add: then_io_def m)
      from q have "filter is_mutating (events (Inl e :: py_exception + unit, rest, evs)) = []"
        by (simp add: m)
      from D_const[OF this] show ?thesis by (simp add: e)
    next
      case (Inr v)
      then have e: "(\<lambda>d. then_io m (k d)) = (\<lambda>d. after_events evs (k d v rest))"
        by (simp add: then_io_def m)
      from q have "filter is_mutating evs = []" by (simp add: m)
      from D_after[OF this k[of v rest]] show ?thesis by (simp add: e)
    qed
  qed
  have D_opt: "D (\<lambda>d. case v of None \<Rightarrow> a d | Some x \<Rightarrow> b d x)"
    if "D a" and "\<And>x. D (\<lambda>d. b d x)" for v a b
    using that by (cases v) simp_all
  have D_prod: "D (\<lambda>d. (case v of (x, y) \<Rightarrow> b d x y) rest)"
    if "\<And>x y. D (\<lambda>d. b d x y rest)" for v b rest
    using that by (cases v) simp
  have D_final: "D (\<lambda>d.
      case collect_target_assets env g t of
         (Inl e, ev) \<Rightarrow> (Inl e, rest, ev)
       | (Inr asset_ids, ev) \<Rightarrow>
           if asset_ids = [] then (Inr (), rest, ev @ [Print (NoAssetsInPath t)])
           else if new
           then (case create_album env g n asset_ids d of
                   (Inl e, ev') \<Rightarrow> (Inl e, rest, ev @ ev')
                 | (Inr success, ev') \<Rightarrow>
                     (Inr (), rest,
                      ev @ ev' @
                      [if truthy success \<or> d
                       then (if d
                             then Print (DryRunCreateDone n (length asset_ids))
                             else Print (CreateSuccess n (length asset_ids)))
                       else Print CreateFailed]))
           else (case add_assets_to_album env g a asset_ids d of
                   (Inl e, ev') \<Rightarrow> (Inl e, rest, ev @ ev')
                 | (Inr success, ev') \<Rightarrow>
                     (Inr (), rest,
                      ev @ ev' @
                      [if success
                       then (if d
                             then Print (DryRunAddDone (length asset_ids) n)
                             else Print (AddSuccess (length asset_ids) n))
                       else Print AddFailed])))" for g t rest new n a
  proof -
    obtain r ev where c: "collect_target_assets env g t = (r, ev)"
      by (cases "collect_target_assets env g t")
    have q: "filter is_mutating ev = []" using quiet_collect[of env g t] by (simp add: c)
    show ?thesis
    proof (cases r)
      case (Inl e)
      show ?thesis
        by (rule D_I[of ev]) (simp_all add: q c Inl S_def)
    next
      case (Inr ids)
      consider "ids = []" | "ids \<noteq> []" "new" | "ids \<noteq> []" "\<not> new" by blast
      then show ?thesis
      proof cases
        case 1
        show ?thesis
          by (rule D_I[of "ev @ [Print (NoAssetsInPath t)]"]) (simp_all add: q c Inr 1 S_def)
      next
        case 2
        let ?r = "\<lambda>d. case create_album env g n ids d of
                   (Inl e, ev') \<Rightarrow> (Inl e :: py_exception + unit, rest, ev @ ev')
                 | (Inr success, ev') \<Rightarrow>
                     (Inr (), rest,
                      ev @ ev' @
                      [if truthy success \<or> d
                       then (if d
                             then Print (DryRunCreateDone n (length ids))
                             else Print (CreateSuccess n (length ids)))
                       else Print CreateFailed])"
        have h: "\<forall>d. events (?r d) = ev @ fc g n ids d \<and> fst (?r d) = oc g n ids d"
          by (simp add: fc_def oc_def split: prod.split sum.split)
        have "S ?r ev" unfolding S_def using h by blast
        with q have "D ?r" by (rule D_I)
        then show ?thesis by (simp add: c Inr 2)
      next
        case 3
        let ?r = "\<lambda>d. case add_assets_to_album env g a ids d of
                   (Inl e, ev') \<Rightarrow> (Inl e :: py_exception + unit, rest, ev @ ev')
                 | (Inr success, ev') \<Rightarrow>
                     (Inr (), rest,
                      ev @ ev' @
                      [if success
                       then (if d
                             then Print (DryRunAddDone (length ids) n)
                             else Print (AddSuccess (length ids) n))
                       else Print AddFailed])"
        have h: "\<forall>d. events (?r d) = ev @ fa g a ids n d \<and> fst (?r d) = oa g a ids d"
          by (simp add: fa_def oa_def split: prod.split sum.split)
        have "S ?r ev" unfolding S_def using h 3(1) by blast
        with q have "D ?r" by (rule D_I)
        then show ?thesis by (simp add: c Inr 3)
      qed
    qed
  qed
  have "D (\<lambda>d. interactive_album_manager env d inp)"
    unfolding interactive_album_manager_def Let_def
    by (intro D_after D_then D_opt D_prod D_final D_const quiet_host quiet_key quiet_root
          quiet_select quiet_path) simp_all
  then obtain pre where pre: "filter is_mutating pre = []"
    and s: "S (\<lambda>d. interactive_album_manager env d inp) pre"
    unfolding D_def by blast
  from s pre show ?thesis
    unfolding S_def fc_def oc_def fa_def oa_def by blast
qed

section \<open>Concrete runs\<close>

lemma new_album_run:
  "interactive_album_manager example_env False new_album_session =
     (Inr (), [],
      [Print Banner, Print ConfigHeader, Print (ShowHost ''127.0.0.1:2283''),
       Print (ShowApiKey ''*****tkey''), Print (ShowLibraryRoot ''/lib''),
       Print SectionHeader, Http GetAlbums, Print (AlbumsFound 1),
       Print OptionCreateNew, Print (AlbumEntry 1 ''Holiday'' 5),
       Http GetAlbums, Print (WillCreateAlbum ''Trip''),
       Print (QueryingPath ''/lib/a''), Http (GetFolder ''a''),
       Print (FoundCount 2), Http (GetFolder ''a''), Http GetAlbums,
       Http (PostAlbum ''Trip'' [''1'', ''2'']),
       Print (OkAlbumCreated ''Trip'' 2), Print CreateFailed])"
  by (simp add: run_defs)

lemma new_album_dry_run:
  "interactive_album_manager example_env True new_album_session =
     (Inr (), [],
      [Print Banner, Print ConfigHeader, Print (ShowHost ''127.0.0.1:2283''),
       Print (ShowApiKey ''*****tkey''), Print (ShowLibraryRoot ''/lib''),
       Print SectionHeader, Http GetAlbums, Print (AlbumsFound 1),
       Print OptionCreateNew, Print (AlbumEntry 1 ''Holiday'' 5),
       Http GetAlbums, Print (WillCreateAlbum ''Trip''),
       Print (QueryingPath ''/lib/a''), Http (GetFolder ''a''),
       Print (FoundCount 2), Http (GetFolder ''a''), Http GetAlbums,
       Print (DryRunWouldCreate ''Trip'' 2),
       Print (DryRunCreateDone ''Trip'' 2)])"
  by (simp add: run_defs)

lemma existing_album_run:
  "interactive_album_manager example_env False existing_album_session =
     (Inr (), [],
      [Print Banner, Print ConfigHeader, Print (ShowHost ''127.0.0.1:2283''),
       Print (ShowApiKey ''*****tkey''), Print (ShowLibraryRoot ''/lib''),
       Print SectionHeader, Http GetAlbums, Print (AlbumsFound 1),
       Print OptionCreateNew, Print (AlbumEntry 1 ''Holiday'' 5),
       Print (SelectedExisting ''Holiday''),
       Print (QueryingPath ''/lib/a/p.jpg''), Http (GetFolder ''a''),
       Print (FoundCount 2), Http (GetFolder ''a''),
       Http (PutAssets (Some ''al1'') [''1'', ''2'']), Print (OkAdded 2),
       Print (AddSuccess 2 ''Holiday'')])"
  by (simp add: run_defs)

section \<open>Failing requests\<close>

text \<open>
  C7, as the claim states it, fails: the call sites catch \<^verbatim>\<open>requests.RequestException\<close>
  and nothing else. A folder response with an item that has no \<^verbatim>\<open>id\<close> raises \<^verbatim>\<open>KeyError\<close>
  inside \<^verbatim>\<open>get_folder_assets\<close>, and a header that cannot be encoded raises
  \<^verbatim>\<open>UnicodeEncodeError\<close> inside \<^verbatim>\<open>get_all_albums\<close>; both leave the function and end the run
  at the top level.
\<close>

theorem uncaught_exception_counterexample:
  "get_folder_assets keyless_env example_globals ''/lib/a'' = (Inl KeyError, [Http (GetFolder ''a'')])
   \<and> fst (interactive_album_manager keyless_env False new_album_session) = Inl KeyError
   \<and> get_all_albums unencodable_env example_globals = (Inl UnicodeEncodeError, [Http GetAlbums])
   \<and> fst (interactive_album_manager unencodable_env False new_album_session)
       = Inl UnicodeEncodeError"
  by (simp add: run_defs)

text \<open>
  C7 (amended): at each of the four call sites a request that fails with a
  \<^verbatim>\<open>requests.RequestException\<close> is caught there: the request is followed by a printed
  error message, and the function returns the empty list (\<^verbatim>\<open>get_folder_assets\<close>,
  \<^verbatim>\<open>get_all_albums\<close>), \<^verbatim>\<open>False\<close> (\<^verbatim>\<open>add_assets_to_album\<close>) or \<^verbatim>\<open>None\<close> (\<^verbatim>\<open>create_album\<close>).
  No \<^verbatim>\<open>RequestException\<close> leaves any of the four functions, and none reaches the top
  level in any run. An exception of another class raised by the request, and the
  \<^verbatim>\<open>KeyError\<close> for a folder item without \<^verbatim>\<open>id\<close>, is not caught: it leaves the function after
  the request, with no message.
\<close>

theorem request_failure_degrades:
  "(view_folder env (IMMICH_HOST g) (HEADERS g) (convert_to_immich_path (LIBRARY_ROOT g) p)
      = Inl (RequestException m)
      \<longrightarrow> get_folder_assets env g p =
            (Inr [], [Http (GetFolder (convert_to_immich_path (LIBRARY_ROOT g) p)),
                      Print (ErrGetAssets (convert_to_immich_path (LIBRARY_ROOT g) p) m)]))
   \<and> (list_albums env (IMMICH_HOST g) (HEADERS g) = Inl (RequestException m)
      \<longrightarrow> get_all_albums env g = (Inr [], [Http GetAlbums, Print (ErrGetAlbums m)]))
   \<and> (asset_ids \<noteq> []
        \<and> put_assets env (IMMICH_HOST g) (HEADERS g) aid asset_ids = Inl (RequestException m)
      \<longrightarrow> add_assets_to_album env g aid asset_ids False =
            (Inr False, [Http (PutAssets aid asset_ids), Print (ErrAddAssets m)]))
   \<and> (fst (album_exists env g album_name) = Inr False
        \<and> post_album env (IMMICH_HOST g) (HEADERS g) album_name asset_ids
            = Inl (RequestException m)
      \<longrightarrow> create_album env g album_name asset_ids False =
            (Inr None, snd (album_exists env g album_name)
                       @ [Http (PostAlbum album_name asset_ids),
                          Print (ErrCreateAlbum album_name m)]))
   \<and> fst (get_folder_assets env g p) \<noteq> Inl (RequestException x)
   \<and> fst (get_all_albums env g) \<noteq> Inl (RequestException x)
   \<and> fst (add_assets_to_album env g aid asset_ids dry_run) \<noteq> Inl (RequestException x)
   \<and> fst (create_album env g album_name asset_ids dry_run) \<noteq> Inl (RequestException x)
   \<and> fst (interactive_album_manager env dry_run inp) \<noteq> Inl (RequestException x)
   \<and> (view_folder env (IMMICH_HOST g) (HEADERS g) (convert_to_immich_path (LIBRARY_ROOT g) p)
        = Inl e \<and> \<not> is_request_exception e
      \<longrightarrow> get_folder_assets env g p =
            (Inl e, [Http (GetFolder (convert_to_immich_path (LIBRARY_ROOT g) p))]))
   \<and> (view_folder env (IMMICH_HOST g) (HEADERS g) (convert_to_immich_path (LIBRARY_ROOT g) p)
        = Inr data \<and> None \<in> set data
      \<longrightarrow> get_folder_assets env g p =
            (Inl KeyError, [Http (GetFolder (convert_to_immich_path (LIBRARY_ROOT g) p))]))
   \<and> (list_albums env (IMMICH_HOST g) (HEADERS g) = Inl e \<and> \<not> is_request_exception e
      \<longrightarrow> get_all_albums env g = (Inl e, [Http GetAlbums]))
   \<and> (asset_ids \<noteq> [] \<and> put_assets env (IMMICH_HOST g) (HEADERS g) aid asset_ids = Inl e
        \<and> \<not> is_request_exception e
      \<longrightarrow> add_assets_to_album env g aid asset_ids False =
            (Inl e, [Http (PutAssets aid asset_ids)]))
   \<and> (fst (album_exists env g album_name) = Inr False
        \<and> post_album env (IMMICH_HOST g) (HEADERS g) album_name asset_ids = Inl e
        \<and> \<not> is_request_exception e
      \<longrightarrow> create_album env g album_name asset_ids False =
            (Inl e, snd (album_exists env g album_name)
                    @ [Http (PostAlbum album_name asset_ids)]))"
proof -
  have 5: "get_folder_assets env g p =
            (Inl e, [Http (GetFolder (convert_to_immich_path (LIBRARY_ROOT g) p))])"
    if "view_folder env (IMMICH_HOST g) (HEADERS g) (convert_to_immich_path (LIBRARY_ROOT g) p)
          = Inl e" "\<not> is_request_exception e"
    using that by (cases e) (simp_all add: get_folder_assets_def Let_def)
  have 6: "get_folder_assets env g p =
            (Inl KeyError, [Http (GetFolder (convert_to_immich_path (LIBRARY_ROOT g) p))])"
    if "view_folder env (IMMICH_HOST g) (HEADERS g) (convert_to_immich_path (LIBRARY_ROOT g) p)
          = Inr data" "None \<in> set data"
    using that item_ids_missing[OF that(2)] by (simp add: get_folder_assets_def Let_def)
  have 7: "get_all_albums env g = (Inl e, [Http GetAlbums])"
    if "list_albums env (IMMICH_HOST g) (HEADERS g) = Inl e" "\<not> is_request_exception e"
    using that by (cases e) (simp_all add: get_all_albums_def)
  have 8: "add_assets_to_album env g aid asset_ids False =
            (Inl e, [Http (PutAssets aid asset_ids)])"
    if "asset_ids \<noteq> []" "put_assets env (IMMICH_HOST g) (HEADERS g) aid asset_ids = Inl e"
       "\<not> is_request_exception e"
    using that by (cases e) (simp_all add: add_assets_to_album_def)
  have 9: "create_album env g album_name asset_ids False =
            (Inl e, snd (album_exists env g album_name)
                    @ [Http (PostAlbum album_name asset_ids)])"
    if "fst (album_exists env g album_name) = Inr False"
       "post_album env (IMMICH_HOST g) (HEADERS g) album_name asset_ids = Inl e"
       "\<not> is_request_exception e"
    using that
    by (cases "album_exists env g album_name"; cases e) (simp_all add: create_album_def)
  have 1: "get_folder_assets env g p =
            (Inr [], [Http (GetFolder (convert_to_immich_path (LIBRARY_ROOT g) p)),
                      Print (ErrGetAssets (convert_to_immich_path (LIBRARY_ROOT g) p) m)])"
    if "view_folder env (IMMICH_HOST g) (HEADERS g) (convert_to_immich_path (LIBRARY_ROOT g) p)
          = Inl (RequestException m)"
    using that by (simp add: get_folder_assets_def Let_def)
  have 2: "get_all_albums env g = (Inr [], [Http GetAlbums, Print (ErrGetAlbums m)])"
    if "list_albums env (IMMICH_HOST g) (HEADERS g) = Inl (RequestException m)"
    using that by (simp add: get_all_albums_def)
  have 3: "add_assets_to_album env g aid asset_ids False =
            (Inr False, [Http (PutAssets aid asset_ids), Print (ErrAddAssets m)])"
    if "asset_ids \<noteq> []"
       "put_assets env (IMMICH_HOST g) (HEADERS g) aid asset_ids = Inl (RequestException m)"
    using that by (simp add: add_assets_to_album_def)
  have 4: "create_album env g album_name asset_ids False =
            (Inr None, snd (album_exists env g album_name)
                       @ [Http (PostAlbum album_name asset_ids),
                          Print (ErrCreateAlbum album_name m)])"
    if "fst (album_exists env g album_name) = Inr False"
       "post_album env (IMMICH_HOST g) (HEADERS g) album_name asset_ids
          = Inl (RequestException m)"
    using that by (cases "album_exists env g album_name") (simp add: create_album_def)
  from 1 2 3 4 5 6 7 8 9 show ?thesis
    using caught_folder[of env g p x] caught_albums[of env g x]
      caught_add[of env g aid asset_ids dry_run x]
      caught_create[of env g album_name asset_ids dry_run x]
      caught_manager[of env dry_run inp x]
    by blast
qed

theorem request_failure_degrades_witness:
  "get_folder_assets failing_env example_globals ''/lib/a'' =
     (Inr [], [Http (GetFolder ''a''), Print (ErrGetAssets ''a'' ''connection refused'')])
   \<and> get_all_albums failing_env example_globals =
       (Inr [], [Http GetAlbums, Print (ErrGetAlbums ''connection refused'')])
   \<and> add_assets_to_album failing_env example_globals (Some ''al1'') [''1''] False =
       (Inr False, [Http (PutAssets (Some ''al1'') [''1'']),
                    Print (ErrAddAssets ''connection refused'')])
   \<and> create_album failing_env example_globals ''Trip'' [''1''] False =
       (Inr None, [Http GetAlbums, Print (ErrGetAlbums ''connection refused''),
                   Http (PostAlbum ''Trip'' [''1'']),
                   Print (ErrCreateAlbum ''Trip'' ''connection refused'')])
   \<and> get_folder_assets keyless_env example_globals ''/lib/a'' =
       (Inl KeyError, [Http (GetFolder ''a'')])
   \<and> get_all_albums unencodable_env example_globals = (Inl UnicodeEncodeError, [Http GetAlbums])
   \<and> add_assets_to_album unencodable_env example_globals (Some ''al1'') [''1''] False =
       (Inl UnicodeEncodeError, [Http (PutAssets (Some ''al1'') [''1''])])"
proof -
  let ?e = "RequestException ''connection refused''"
  have k1: "view_folder keyless_env (IMMICH_HOST example_globals) (HEADERS example_globals)
              (convert_to_immich_path (LIBRARY_ROOT example_globals) ''/lib/a'')
              = Inr [Some ''1'', None] \<and> None \<in> set [Some ''1'', None]"
    by (simp add: keyless_env_def example_globals_def convert_to_immich_path_def
          startswith_def lstrip_def os_sep_def)
  have u1: "list_albums unencodable_env (IMMICH_HOST example_globals) (HEADERS example_globals)
              = Inl UnicodeEncodeError \<and> \<not> is_request_exception UnicodeEncodeError"
    by (simp add: unencodable_env_def)
  have u2: "[''1''] \<noteq> [] \<and> put_assets unencodable_env (IMMICH_HOST example_globals)
              (HEADERS example_globals) (Some ''al1'') [''1''] = Inl UnicodeEncodeError"
    by (simp add: unencodable_env_def)
  from request_failure_degrades[of keyless_env example_globals "''/lib/a''" "''x''"
         "[''1'']" "Some ''al1''" "''Trip''" "''x''" False "[]" UnicodeEncodeError
         "[Some ''1'', None]"] k1
  have w1: "get_folder_assets keyless_env example_globals ''/lib/a'' =
       (Inl KeyError, [Http (GetFolder ''a'')])"
    by (simp add: example_globals_def convert_to_immich_path_def startswith_def lstrip_def
          os_sep_def)
  from request_failure_degrades[of unencodable_env example_globals "''/lib/a''" "''x''"
         "[''1'']" "Some ''al1''" "''Trip''" "''x''" False "[]" UnicodeEncodeError "[]"] u1 u2
  have w2: "get_all_albums unencodable_env example_globals
              = (Inl UnicodeEncodeError, [Http GetAlbums])
     \<and> add_assets_to_album unencodable_env example_globals (Some ''al1'') [''1''] False =
       (Inl UnicodeEncodeError, [Http (PutAssets (Some ''al1'') [''1''])])"
    by simp
  have c: "convert_to_immich_path (LIBRARY_ROOT example_globals) ''/lib/a'' = ''a''"
    by (simp add: example_globals_def convert_to_immich_path_def startswith_def lstrip_def
          os_sep_def)
  have h1: "view_folder failing_env (IMMICH_HOST example_globals) (HEADERS example_globals)
              (convert_to_immich_path (LIBRARY_ROOT example_globals) ''/lib/a'') = Inl ?e"
    by (simp add: failing_env_def)
  have h2: "list_albums failing_env (IMMICH_HOST example_globals) (HEADERS example_globals)
              = Inl ?e"
    by (simp add: failing_env_def)
  have h3: "[''1''] \<noteq> [] \<and> put_assets failing_env (IMMICH_HOST example_globals)
              (HEADERS example_globals) (Some ''al1'') [''1''] = Inl ?e"
    by (simp add: failing_env_def)
  have ae: "album_exists failing_env example_globals ''Trip'' =
              (Inr False, [Http GetAlbums, Print (ErrGetAlbums ''connection refused'')])"
    by (simp add: album_exists_def get_all_albums_def failing_env_def)
  have h4: "fst (album_exists failing_env example_globals ''Trip'') = Inr False
            \<and> post_album failing_env (IMMICH_HOST example_globals) (HEADERS example_globals)
                ''Trip'' [''1''] = Inl ?e"
    by (simp add: ae) (simp add: failing_env_def)
  from request_failure_degrades[of failing_env example_globals "''/lib/a''"
         "''connection refused''" "[''1'']" "Some ''al1''" "''Trip''"] h1 h2 h3 h4
  have w3: "get_folder_assets failing_env example_globals ''/lib/a'' =
     (Inr [], [Http (GetFolder ''a''), Print (ErrGetAssets ''a'' ''connection refused'')])
   \<and> get_all_albums failing_env example_globals =
       (Inr [], [Http GetAlbums, Print (ErrGetAlbums ''connection refused'')])
   \<and> add_assets_to_album failing_env example_globals (Some ''al1'') [''1''] False =
       (Inr False, [Http (PutAssets (Some ''al1'') [''1'']),
                    Print (ErrAddAssets ''connection refused'')])
   \<and> create_album failing_env example_globals ''Trip'' [''1''] False =
       (Inr None, [Http GetAlbums, Print (ErrGetAlbums ''connection refused''),
                   Http (PostAlbum ''Trip'' [''1'']),
                   Print (ErrCreateAlbum ''Trip'' ''connection refused'')])"
    by (simp add: c ae)
  from w1 w2 w3 show ?thesis by simp
qed

section \<open>Dry run\<close>

text \<open>
  C4: with the dry-run flag set, no run of the program issues an album-create POST or an
  asset-append PUT, whatever the user enters and the server and file system answer; nor
  do \<^verbatim>\<open>create_album\<close> and \<^verbatim>\<open>add_assets_to_album\<close> on any arguments. Where the run without
  the flag issues the POST (or the PUT), the run with the flag, on the same input in the
  same world, prints the action it would have taken instead.
\<close>

theorem dry_run_issues_no_mutating_call:
  "(\<forall>e \<in> set (events (interactive_album_manager env True inp)). \<not> is_mutating e)
   \<and> (\<forall>e \<in> set (snd (create_album env g n ids True)). \<not> is_mutating e)
   \<and> (\<forall>e \<in> set (snd (add_assets_to_album env g a ids True)). \<not> is_mutating e)
   \<and> (Http (PostAlbum n ids) \<in> set (events (interactive_album_manager env False inp))
        \<longrightarrow> Print (DryRunWouldCreate n (length ids))
              \<in> set (events (interactive_album_manager env True inp)))
   \<and> (Http (PutAssets a ids) \<in> set (events (interactive_album_manager env False inp))
        \<longrightarrow> Print (DryRunWouldAdd (length ids))
              \<in> set (events (interactive_album_manager env True inp)))"
proof -
  let ?run = "\<lambda>d. events (interactive_album_manager env d inp)"
  have fun_level:
    "(\<forall>e \<in> set (snd (create_album env g n ids True)). \<not> is_mutating e)
     \<and> (\<forall>e \<in> set (snd (add_assets_to_album env g a ids True)). \<not> is_mutating e)"
    using quiet_create_dry[of env g n ids] quiet_add_dry[of env g a ids]
    by (simp add: filter_empty_conv)
  obtain pre where pre: "filter is_mutating pre = []" and shape:
    "(\<forall>d. ?run d = pre)
      \<or> (\<exists>g n ids. \<forall>d. ?run d =
              pre @ snd (create_album env g n ids d)
                @ (case fst (create_album env g n ids d) of
                     Inl e \<Rightarrow> []
                   | Inr success \<Rightarrow>
                       [if truthy success \<or> d
                        then (if d then Print (DryRunCreateDone n (length ids))
                              else Print (CreateSuccess n (length ids)))
                        else Print CreateFailed]))
      \<or> (\<exists>g a ids n. \<forall>d. ?run d =
              pre @ snd (add_assets_to_album env g a ids d)
                @ (case fst (add_assets_to_album env g a ids d) of
                     Inl e \<Rightarrow> []
                   | Inr success \<Rightarrow>
                       [if success
                        then (if d then Print (DryRunAddDone (length ids) n)
                              else Print (AddSuccess (length ids) n))
                        else Print AddFailed]))"
    using manager_events_shape[of env inp] by blast
  have np: "e \<notin> set pre" if "is_mutating e" for e
    using not_in_quiet[OF pre that] .
  from shape consider
      (plain) "\<forall>d. ?run d = pre"
    | (create) g' n' ids' where "\<forall>d. ?run d =
              pre @ snd (create_album env g' n' ids' d)
                @ (case fst (create_album env g' n' ids' d) of
                     Inl e \<Rightarrow> []
                   | Inr success \<Rightarrow>
                       [if truthy success \<or> d
                        then (if d then Print (DryRunCreateDone n' (length ids'))
                              else Print (CreateSuccess n' (length ids')))
                        else Print CreateFailed])"
    | (add) g' a' ids' n' where "\<forall>d. ?run d =
              pre @ snd (add_assets_to_album env g' a' ids' d)
                @ (case fst (add_assets_to_album env g' a' ids' d) of
                     Inl e \<Rightarrow> []
                   | Inr success \<Rightarrow>
                       [if success
                        then (if d then Print (DryRunAddDone (length ids') n')
                              else Print (AddSuccess (length ids') n'))
                        else Print AddFailed])"
    by blast
  then have whole:
    "(\<forall>e \<in> set (?run True). \<not> is_mutating e)
     \<and> (Http (PostAlbum n ids) \<in> set (?run False)
          \<longrightarrow> Print (DryRunWouldCreate n (length ids)) \<in> set (?run True))
     \<and> (Http (PutAssets a ids) \<in> set (?run False)
          \<longrightarrow> Print (DryRunWouldAdd (length ids)) \<in> set (?run True))"
  proof cases
    case plain
    then show ?thesis using np by auto
  next
    case create
    have t: "\<forall>e \<in> set (?run True). e \<in> set pre
               \<or> e \<in> set (snd (create_album env g' n' ids' True)) \<or> (\<exists>m. e = Print m)"
      using create by (auto split: sum.splits if_splits)
    have t': "set (snd (create_album env g' n' ids' True)) \<subseteq> set (?run True)"
      using create by auto
    have f: "\<forall>e \<in> set (?run False). e \<in> set pre
               \<or> e \<in> set (snd (create_album env g' n' ids' False)) \<or> (\<exists>m. e = Print m)"
      using create by (auto split: sum.splits if_splits)
    have q: "\<forall>e \<in> set (snd (create_album env g' n' ids' True)). \<not> is_mutating e"
      using quiet_create_dry[of env g' n' ids'] by (simp add: filter_empty_conv)
    have 1: "\<forall>e \<in> set (?run True). \<not> is_mutating e"
      using np q t by fastforce
    have 2: "Print (DryRunWouldCreate n (length ids)) \<in> set (?run True)"
      if "Http (PostAlbum n ids) \<in> set (?run False)"
    proof -
      from that f np[of "Http (PostAlbum n ids)"]
      have "Http (PostAlbum n ids) \<in> set (snd (create_album env g' n' ids' False))" by auto
      from post_in_create[OF this] t' show ?thesis by auto
    qed
    have 3: "Http (PutAssets a ids) \<notin> set (?run False)"
      using f np[of "Http (PutAssets a ids)"] put_not_in_create[of a ids env g' n' ids' False]
      by auto
    from 1 2 3 show ?thesis by blast
  next
    case add
    have t: "\<forall>e \<in> set (?run True). e \<in> set pre
               \<or> e \<in> set (snd (add_assets_to_album env g' a' ids' True)) \<or> (\<exists>m. e = Print m)"
      using add by (auto split: sum.splits if_splits)
    have t': "set (snd (add_assets_to_album env g' a' ids' True)) \<subseteq> set (?run True)"
      using add by auto
    have f: "\<forall>e \<in> set (?run False). e \<in> set pre
               \<or> e \<in> set (snd (add_assets_to_album env g' a' ids' False)) \<or> (\<exists>m. e = Print m)"
      using add by (auto split: sum.splits if_splits)
    have q: "\<forall>e \<in> set (snd (add_assets_to_album env g' a' ids' True)). \<not> is_mutating e"
      using quiet_add_dry[of env g' a' ids'] by (simp add: filter_empty_conv)
    have 1: "\<forall>e \<in> set (?run True). \<not> is_mutating e"
      using np q t by fastforce
    have 2: "Print (DryRunWouldAdd (length ids)) \<in> set (?run True)"
      if "Http (PutAssets a ids) \<in> set (?run False)"
    proof -
      from that f np[of "Http (PutAssets a ids)"]
      have "Http (PutAssets a ids) \<in> set (snd (add_assets_to_album env g' a' ids' False))"
        by auto
      from put_in_add[OF this] t' show ?thesis by auto
    qed
    have 3: "Http (PostAlbum n ids) \<notin> set (?run False)"
      using f np[of "Http (PostAlbum n ids)"] post_not_in_add[of n ids env g' a' ids' False]
      by auto
    from 1 2 3 show ?thesis by blast
  qed
  from whole fun_level show ?thesis by blast
qed

theorem dry_run_issues_no_mutating_call_witness:
  "Http (PostAlbum ''Trip'' [''1'', ''2''])
     \<in> set (events (interactive_album_manager example_env False new_album_session))
   \<and> Http (PutAssets (Some ''al1'') [''1'', ''2''])
     \<in> set (events (interactive_album_manager example_env False existing_album_session))
   \<and> Print (DryRunWouldCreate ''Trip'' 2)
     \<in> set (events (interactive_album_manager example_env True new_album_session))
   \<and> Print (DryRunWouldAdd 2)
     \<in> set (events (interactive_album_manager example_env True existing_album_session))
   \<and> filter is_mutating (events (interactive_album_manager example_env True new_album_session))
       = []"
proof -
  have h1: "Http (PostAlbum ''Trip'' [''1'', ''2''])
      \<in> set (events (interactive_album_manager example_env False new_album_session))"
    by (simp add: new_album_run)
  have h2: "Http (PutAssets (Some ''al1'') [''1'', ''2''])
      \<in> set (events (interactive_album_manager example_env False existing_album_session))"
    by (simp add: existing_album_run)
  from dry_run_issues_no_mutating_call[of example_env new_album_session example_globals
         "''Trip''" "[''1'', ''2'']" None] h1
  have c1: "Print (DryRunWouldCreate ''Trip'' 2)
      \<in> set (events (interactive_album_manager example_env True new_album_session))
      \<and> filter is_mutating
            (events (interactive_album_manager example_env True new_album_session)) = []"
    by (simp add: numeral_2_eq_2 filter_empty_conv)
  from dry_run_issues_no_mutating_call[of example_env existing_album_session example_globals
         "''Trip''" "[''1'', ''2'']" "Some ''al1''"] h2
  have c2: "Print (DryRunWouldAdd 2)
      \<in> set (events (interactive_album_manager example_env True existing_album_session))"
    by (simp add: numeral_2_eq_2)
  from h1 h2 c1 c2 show ?thesis by blast
qed

section \<open>A file as the target path\<close>



section \<open>The value of create\_album\<close>



end
